theory Spec2Isabelle
  imports Complex_Main
begin

section \<open>The mesh data model\<close>

text \<open>
  The operator \<^verbatim>\<open>GRILLZ_OT_GenerateGrill.execute\<close> of \<^verbatim>\<open>grillz_designer_addon.py\<close> reads the
  edit-mode BMesh of the scan, copies the selected faces into a fresh BMesh and attaches a
  modifier stack to a new object. A BMesh is modelled as an indexed face set: the sequence
  \<^verbatim>\<open>bm.verts\<close> is a list, a vertex is identified by its place in that list (Python compares
  and hashes a \<^verbatim>\<open>BMVert\<close> by identity, not by position in space), and \<^verbatim>\<open>face.verts\<close> is the
  list of the identities of the face's corners in winding order. Coordinates and the
  numeric operator properties are modelled as reals; the operator itself never computes
  with them.
\<close>

type_synonym Vector = "real \<times> real \<times> real"

record BMVert =
  v_co :: Vector
  v_select :: bool

record BMFace =
  f_verts :: "nat list"
  f_select :: bool

record BMesh =
  bm_verts :: "BMVert list"
  bm_faces :: "BMFace list"

text \<open>\<^verbatim>\<open>bmesh.new()\<close>: an empty BMesh.\<close>

definition bmesh_new :: BMesh where
  "bmesh_new = \<lparr>bm_verts = [], bm_faces = []\<rparr>"

text \<open>
  \<^verbatim>\<open>new_bm.verts.new(co)\<close>: the host appends an unselected vertex at \<open>co\<close> and returns it;
  its identity is its place in \<^verbatim>\<open>new_bm.verts\<close>.
\<close>

definition verts_new :: "BMesh \<Rightarrow> Vector \<Rightarrow> BMesh \<times> nat" where
  "verts_new b c =
     (b\<lparr>bm_verts := bm_verts b @ [\<lparr>v_co = c, v_select = False\<rparr>]\<rparr>, length (bm_verts b))"

text \<open>
  \<^verbatim>\<open>new_bm.faces.new(verts)\<close>: the host's face constructor. It raises when the sequence has
  fewer than three vertices, when a vertex occurs in it more than once, and when the BMesh
  already has a face over exactly those vertices; otherwise it appends the face.
\<close>

datatype py_error = SequenceTooShort | VertexUsedTwice | FaceExists

definition faces_new :: "BMesh \<Rightarrow> nat list \<Rightarrow> py_error + BMesh" where
  "faces_new b vs =
     (if length vs < 3 then Inl SequenceTooShort
      else if \<not> distinct vs then Inl VertexUsedTwice
      else if list_ex (\<lambda>f. set (f_verts f) = set vs) (bm_faces b) then Inl FaceExists
      else Inr (b\<lparr>bm_faces := bm_faces b @ [\<lparr>f_verts = vs, f_select = False\<rparr>]\<rparr>))"

section \<open>The geometry copy\<close>

text \<open>
  Lines 83 to 88, the loop over \<^verbatim>\<open>face.verts\<close>: a vertex that is not yet a key of
  \<^verbatim>\<open>vert_map\<close> is copied into \<^verbatim>\<open>new_bm\<close> and entered in the map; the image of the vertex is
  appended to \<^verbatim>\<open>new_verts\<close>.
\<close>

fun copy_face_verts ::
  "BMesh \<Rightarrow> nat list \<Rightarrow> BMesh \<times> (nat \<rightharpoonup> nat) \<times> nat list \<Rightarrow> BMesh \<times> (nat \<rightharpoonup> nat) \<times> nat list"
where
  "copy_face_verts bm [] st = st"
| "copy_face_verts bm (vert # rest) (new_bm, vert_map, new_verts) =
     (case vert_map vert of
        None \<Rightarrow>
          (case verts_new new_bm (v_co (bm_verts bm ! vert)) of
             (new_bm', new_v) \<Rightarrow>
               copy_face_verts bm rest (new_bm', vert_map(vert \<mapsto> new_v), new_verts @ [new_v]))
      | Some new_v \<Rightarrow> copy_face_verts bm rest (new_bm, vert_map, new_verts @ [new_v]))"

text \<open>
  Lines 80 to 90, the loop over \<^verbatim>\<open>bm.faces\<close>: every face flagged selected is copied, and an
  exception of the face constructor ends the loop.
\<close>

fun copy_faces ::
  "BMesh \<Rightarrow> BMFace list \<Rightarrow> BMesh \<times> (nat \<rightharpoonup> nat) \<Rightarrow> py_error + BMesh \<times> (nat \<rightharpoonup> nat)"
where
  "copy_faces bm [] st = Inr st"
| "copy_faces bm (face # rest) (new_bm, vert_map) =
     (if f_select face then
        (case copy_face_verts bm (f_verts face) (new_bm, vert_map, []) of
           (new_bm', vert_map', new_verts) \<Rightarrow>
             (case faces_new new_bm' new_verts of
                Inl e \<Rightarrow> Inl e
              | Inr new_bm'' \<Rightarrow> copy_faces bm rest (new_bm'', vert_map')))
      else copy_faces bm rest (new_bm, vert_map))"

text \<open>Lines 94 to 96, the fallback loop: one new vertex for every selected source vertex.\<close>

fun copy_selected_verts :: "BMVert list \<Rightarrow> BMesh \<Rightarrow> BMesh" where
  "copy_selected_verts [] new_bm = new_bm"
| "copy_selected_verts (vert # rest) new_bm =
     (if v_select vert then copy_selected_verts rest (fst (verts_new new_bm (v_co vert)))
      else copy_selected_verts rest new_bm)"

text \<open>
  Lines 74 to 96: the new BMesh is built from an empty one and an empty \<^verbatim>\<open>vert_map\<close>; the
  fallback runs when the face loop left \<^verbatim>\<open>new_bm.faces\<close> empty.
\<close>

definition build_new_bm :: "BMesh \<Rightarrow> py_error + BMesh" where
  "build_new_bm bm =
     (case copy_faces bm (bm_faces bm) (bmesh_new, Map.empty) of
        Inl e \<Rightarrow> Inl e
      | Inr (new_bm, vert_map) \<Rightarrow>
          Inr (if bm_faces new_bm = [] then copy_selected_verts (bm_verts bm) new_bm
               else new_bm))"

text \<open>
  The selection extractor of the specification: the selection check of lines 66 to 68
  followed by the geometry copy. \<open>NoSelection\<close> is the cancelled run with its warning;
  \<open>Raised\<close> is an exception of the face constructor leaving the operator.
\<close>

datatype extract_error = NoSelection | Raised py_error

definition extract_selection :: "BMesh \<Rightarrow> extract_error + BMesh" where
  "extract_selection bm =
     (if \<not> list_ex v_select (bm_verts bm) then Inl NoSelection
      else (case build_new_bm bm of Inl e \<Rightarrow> Inl (Raised e) | Inr new_bm \<Rightarrow> Inr new_bm))"

section \<open>Operator properties\<close>

text \<open>
  Lines 27 to 43 declare the three operator properties with \<^verbatim>\<open>bpy.props.FloatProperty\<close>,
  each with a default and the hard limits \<^verbatim>\<open>min\<close> and \<^verbatim>\<open>max\<close>. The host stores a value
  assigned to such a property only after clamping it to the limits; \<open>float_set\<close> is that
  assignment.
\<close>

record FloatProperty =
  fp_default :: real
  fp_min :: real
  fp_max :: real

definition thickness_prop :: FloatProperty where
  "thickness_prop = \<lparr>fp_default = 0.6, fp_min = 0.2, fp_max = 5.0\<rparr>"

definition remesh_voxel_size_prop :: FloatProperty where
  "remesh_voxel_size_prop = \<lparr>fp_default = 0.1, fp_min = 0.01, fp_max = 1.0\<rparr>"

definition decimate_ratio_prop :: FloatProperty where
  "decimate_ratio_prop = \<lparr>fp_default = 0.5, fp_min = 0.05, fp_max = 1.0\<rparr>"

definition float_set :: "FloatProperty \<Rightarrow> real \<Rightarrow> real" where
  "float_set p v = (if v < fp_min p then fp_min p else if fp_max p < v then fp_max p else v)"

record Operator =
  thickness :: real
  remesh_voxel_size :: real
  decimate_ratio :: real

text \<open>A fresh operator instance holds the declared defaults.\<close>

definition operator_new :: Operator where
  "operator_new =
     \<lparr>thickness = fp_default thickness_prop,
      remesh_voxel_size = fp_default remesh_voxel_size_prop,
      decimate_ratio = fp_default decimate_ratio_prop\<rparr>"

text \<open>
  Lines 180 to 183 of the panel: the operator button is created and its three properties
  are assigned from the scene settings. An assignment to a property goes through
  \<open>float_set\<close> with the limits of that property.
\<close>

record Scene =
  grillz_thickness :: real
  grillz_remesh_voxel_size :: real
  grillz_decimate_ratio :: real

definition set_thickness :: "real \<Rightarrow> Operator \<Rightarrow> Operator" where
  "set_thickness v op = op\<lparr>thickness := float_set thickness_prop v\<rparr>"

definition set_remesh_voxel_size :: "real \<Rightarrow> Operator \<Rightarrow> Operator" where
  "set_remesh_voxel_size v op = op\<lparr>remesh_voxel_size := float_set remesh_voxel_size_prop v\<rparr>"

definition set_decimate_ratio :: "real \<Rightarrow> Operator \<Rightarrow> Operator" where
  "set_decimate_ratio v op = op\<lparr>decimate_ratio := float_set decimate_ratio_prop v\<rparr>"

definition panel_operator :: "Scene \<Rightarrow> Operator" where
  "panel_operator scene =
     (let op = operator_new;
          op = set_thickness (grillz_thickness scene) op;
          op = set_remesh_voxel_size (grillz_remesh_voxel_size scene) op;
          op = set_decimate_ratio (grillz_decimate_ratio scene) op
      in op)"

text \<open>
  The operator instances the host can hand to \<^verbatim>\<open>execute\<close>: a fresh instance, changed by
  any number of property assignments.
\<close>

inductive configured :: "Operator \<Rightarrow> bool" where
  fresh: "configured operator_new"
| thickness: "configured op \<Longrightarrow> configured (set_thickness v op)"
| remesh_voxel_size: "configured op \<Longrightarrow> configured (set_remesh_voxel_size v op)"
| decimate_ratio: "configured op \<Longrightarrow> configured (set_decimate_ratio v op)"

section \<open>The host's data-blocks and context\<close>

text \<open>
  A modifier is its name, its type and the settings written so far; a setting that the
  operator does not write stays at the host's default and is absent from the map.
\<close>

datatype prop_value = FloatV real | IntV int | BoolV bool | EnumV string

record Modifier =
  md_name :: string
  md_type :: string
  md_settings :: "string \<rightharpoonup> prop_value"

record Mesh =
  me_name :: string
  me_bm :: BMesh

record Object =
  ob_name :: string
  ob_type :: string
  ob_data :: nat
  ob_select :: bool
  ob_location :: Vector
  ob_modifiers :: "Modifier list"

text \<open>
  \<^verbatim>\<open>bpy.data\<close> and the context in one record. Data-blocks live in the lists \<open>meshes\<close> and
  \<open>objects\<close>; a reference to a data-block is its place in the list, so \<open>ob_data\<close> of
  an object and \<open>edit_object\<close> and \<open>active\<close> of the context are places.
\<close>

record Blend =
  meshes :: "Mesh list"
  objects :: "Object list"
  mode :: string
  edit_object :: "nat option"
  collection :: "nat list"
  active :: "nat option"

datatype Status = FINISHED | CANCELLED | EXCEPTION py_error

type_synonym Report = "string \<times> string"

text \<open>Updating the data-block at a place; a place outside the list changes nothing.\<close>

definition map_at :: "nat \<Rightarrow> ('a \<Rightarrow> 'a) \<Rightarrow> 'a list \<Rightarrow> 'a list" where
  "map_at k f xs = xs[k := f (xs ! k)]"

text \<open>\<^verbatim>\<open>bmesh.from_edit_mesh(mesh)\<close>: the live BMesh of a mesh in edit mode.\<close>

definition from_edit_mesh :: "Mesh \<Rightarrow> BMesh" where
  "from_edit_mesh me = me_bm me"

text \<open>\<^verbatim>\<open>bpy.data.meshes.new(name)\<close>: a new, empty mesh data-block.\<close>

definition meshes_new :: "string \<Rightarrow> Blend \<Rightarrow> Blend \<times> nat" where
  "meshes_new name c =
     (c\<lparr>meshes := meshes c @ [\<lparr>me_name = name, me_bm = bmesh_new\<rparr>]\<rparr>, length (meshes c))"

text \<open>\<^verbatim>\<open>new_bm.to_mesh(new_mesh)\<close>: the BMesh is written into the mesh data-block.\<close>

definition to_mesh :: "BMesh \<Rightarrow> nat \<Rightarrow> Blend \<Rightarrow> Blend" where
  "to_mesh new_bm new_mesh c =
     c\<lparr>meshes := map_at new_mesh (\<lambda>me. me\<lparr>me_bm := new_bm\<rparr>) (meshes c)\<rparr>"

text \<open>\<^verbatim>\<open>bpy.data.objects.new(name, mesh)\<close>: a new mesh object, unselected, at the origin.\<close>

definition objects_new :: "string \<Rightarrow> nat \<Rightarrow> Blend \<Rightarrow> Blend \<times> nat" where
  "objects_new name me c =
     (c\<lparr>objects := objects c @
          [\<lparr>ob_name = name, ob_type = ''MESH'', ob_data = me, ob_select = False,
            ob_location = (0, 0, 0), ob_modifiers = []\<rparr>]\<rparr>,
      length (objects c))"

definition collection_link :: "nat \<Rightarrow> Blend \<Rightarrow> Blend" where
  "collection_link ob c = c\<lparr>collection := collection c @ [ob]\<rparr>"

text \<open>\<^verbatim>\<open>bpy.ops.object.mode_set(mode='OBJECT')\<close>: edit mode is left, no object is edited.\<close>

definition mode_set :: "string \<Rightarrow> Blend \<Rightarrow> Blend" where
  "mode_set m c = c\<lparr>mode := m, edit_object := None\<rparr>"

text \<open>\<^verbatim>\<open>bpy.ops.object.select_all(action='DESELECT')\<close>.\<close>

definition select_all_deselect :: "Blend \<Rightarrow> Blend" where
  "select_all_deselect c = c\<lparr>objects := map (\<lambda>ob. ob\<lparr>ob_select := False\<rparr>) (objects c)\<rparr>"

definition select_set :: "nat \<Rightarrow> bool \<Rightarrow> Blend \<Rightarrow> Blend" where
  "select_set ob b c = c\<lparr>objects := map_at ob (\<lambda>x. x\<lparr>ob_select := b\<rparr>) (objects c)\<rparr>"

definition set_active :: "nat \<Rightarrow> Blend \<Rightarrow> Blend" where
  "set_active ob c = c\<lparr>active := Some ob\<rparr>"

text \<open>
  \<^verbatim>\<open>bpy.ops.object.origin_set(type='ORIGIN_GEOMETRY', center='BOUNDS')\<close>: for every selected
  mesh object the centre of the bounding box of its geometry becomes the origin: the
  vertices of its mesh are moved by the negated centre and the object by the centre.
\<close>

definition bounds_center :: "Vector list \<Rightarrow> Vector" where
  "bounds_center cs =
     (let xs = map fst cs; ys = map (\<lambda>c. fst (snd c)) cs; zs = map (\<lambda>c. snd (snd c)) cs in
      ((fold min xs (hd xs) + fold max xs (hd xs)) / 2,
       (fold min ys (hd ys) + fold max ys (hd ys)) / 2,
       (fold min zs (hd zs) + fold max zs (hd zs)) / 2))"

definition vec_add :: "Vector \<Rightarrow> Vector \<Rightarrow> Vector" where
  "vec_add a b = (fst a + fst b, fst (snd a) + fst (snd b), snd (snd a) + snd (snd b))"

definition vec_neg :: "Vector \<Rightarrow> Vector" where
  "vec_neg a = (- fst a, - fst (snd a), - snd (snd a))"

definition translate :: "Vector \<Rightarrow> Mesh \<Rightarrow> Mesh" where
  "translate d me =
     me\<lparr>me_bm := (me_bm me)\<lparr>bm_verts :=
        map (\<lambda>v. v\<lparr>v_co := vec_add (v_co v) d\<rparr>) (bm_verts (me_bm me))\<rparr>\<rparr>"

definition origin_to_bounds :: "nat \<Rightarrow> Blend \<Rightarrow> Blend" where
  "origin_to_bounds i c =
     (let ob = objects c ! i;
          cs = map v_co (bm_verts (me_bm (meshes c ! ob_data ob)))
      in if ob_type ob \<noteq> ''MESH'' \<or> cs = [] then c
         else c\<lparr>meshes := map_at (ob_data ob) (translate (vec_neg (bounds_center cs))) (meshes c),
                objects := map_at i
                  (\<lambda>x. x\<lparr>ob_location := vec_add (ob_location x) (bounds_center cs)\<rparr>)
                  (objects c)\<rparr>)"

definition origin_set :: "Blend \<Rightarrow> Blend" where
  "origin_set c =
     fold origin_to_bounds
       (filter (\<lambda>i. ob_select (objects c ! i)) [0..<length (objects c)]) c"

text \<open>
  \<^verbatim>\<open>ob.modifiers.new(name, type)\<close> appends a modifier to the stack of the object and
  returns it (its place in the stack); an attribute assignment writes one setting of it.
\<close>

definition modifiers_new :: "string \<Rightarrow> string \<Rightarrow> Object \<Rightarrow> Object \<times> nat" where
  "modifiers_new name ty ob =
     (ob\<lparr>ob_modifiers := ob_modifiers ob @
          [\<lparr>md_name = name, md_type = ty, md_settings = Map.empty\<rparr>]\<rparr>,
      length (ob_modifiers ob))"

definition mod_setattr :: "nat \<Rightarrow> string \<Rightarrow> prop_value \<Rightarrow> Object \<Rightarrow> Object" where
  "mod_setattr m attr v ob =
     ob\<lparr>ob_modifiers :=
        map_at m (\<lambda>x. x\<lparr>md_settings := (md_settings x)(attr \<mapsto> v)\<rparr>) (ob_modifiers ob)\<rparr>"

section \<open>The operator\<close>

text \<open>Lines 116 to 141: the five modifiers are added to the new object, one after another.\<close>

definition add_modifier_stack :: "Operator \<Rightarrow> Object \<Rightarrow> Object" where
  "add_modifier_stack self grill_object =
     (case modifiers_new ''Grill_Weld'' ''WELD'' grill_object of (ob, weld_mod) \<Rightarrow>
      let ob = mod_setattr weld_mod ''merge_threshold'' (FloatV 0.01) ob in
      case modifiers_new ''Grill_Thickness'' ''SOLIDIFY'' ob of (ob, solidify_mod) \<Rightarrow>
      let ob = mod_setattr solidify_mod ''thickness'' (FloatV (thickness self)) ob;
          ob = mod_setattr solidify_mod ''offset'' (FloatV 1) ob in
      case modifiers_new ''Grill_Remesh'' ''REMESH'' ob of (ob, remesh_mod) \<Rightarrow>
      let ob = mod_setattr remesh_mod ''mode'' (EnumV ''VOXEL'') ob;
          ob = mod_setattr remesh_mod ''voxel_size'' (FloatV (remesh_voxel_size self)) ob;
          ob = mod_setattr remesh_mod ''use_remove_disconnected'' (BoolV True) ob in
      case modifiers_new ''Grill_LaplacianSmooth'' ''LAPLACIANSMOOTH'' ob of
        (ob, lap_smooth_mod) \<Rightarrow>
      let ob = mod_setattr lap_smooth_mod ''iterations'' (IntV 5) ob;
          ob = mod_setattr lap_smooth_mod ''use_volume_preserve'' (BoolV True) ob in
      case modifiers_new ''Grill_Decimate'' ''DECIMATE'' ob of (ob, decimate_mod) \<Rightarrow>
      mod_setattr decimate_mod ''ratio'' (FloatV (decimate_ratio self)) ob)"

text \<open>
  Lines 98 to 141: the BMesh is written to the new mesh, the object is created, linked,
  selected, made active and recentred, and the modifier stack is attached.
\<close>

definition finish_grill :: "Operator \<Rightarrow> BMesh \<Rightarrow> nat \<Rightarrow> Blend \<Rightarrow> Blend" where
  "finish_grill self new_bm new_mesh c =
     (let c = to_mesh new_bm new_mesh c in
      case objects_new ''Grill_Base'' new_mesh c of (c, grill_object) \<Rightarrow>
      let c = collection_link grill_object c;
          c = mode_set ''OBJECT'' c;
          c = select_all_deselect c;
          c = select_set grill_object True c;
          c = set_active grill_object c;
          c = origin_set c
      in c\<lparr>objects := map_at grill_object (add_modifier_stack self) (objects c)\<rparr>)"

text \<open>
  \<^verbatim>\<open>execute\<close>, lines 46 to 144. The result is the returned status (or the exception that
  left the operator), the reports made and the host state after the run.
\<close>

definition execute :: "Operator \<Rightarrow> Blend \<Rightarrow> Status \<times> Report list \<times> Blend" where
  "execute self context =
     (if mode context \<noteq> ''EDIT_MESH'' then
        (CANCELLED, [(''WARNING'', ''Please switch to Edit Mode to select teeth.'')], context)
      else
        (case edit_object context of
           None \<Rightarrow>
             (CANCELLED, [(''WARNING'', ''An editable mesh object must be active.'')], context)
         | Some source_obj \<Rightarrow>
             if ob_type (objects context ! source_obj) \<noteq> ''MESH'' then
               (CANCELLED, [(''WARNING'', ''An editable mesh object must be active.'')], context)
             else
               let bm = from_edit_mesh (meshes context ! ob_data (objects context ! source_obj))
               in if \<not> list_ex v_select (bm_verts bm) then
                    (CANCELLED, [(''WARNING'', ''You must select the teeth vertices first.'')],
                     context)
                  else
                    (case meshes_new ''Grill_Base_Mesh'' context of (c, new_mesh) \<Rightarrow>
                       (case build_new_bm bm of
                          Inl e \<Rightarrow> (EXCEPTION e, [], c)
                        | Inr new_bm \<Rightarrow>
                            (FINISHED,
                             [(''INFO'', ''Non-destructively generated Grill_Base object.'')],
                             finish_grill self new_bm new_mesh c)))))"

section \<open>Notions used in the statements\<close>

text \<open>The faces flagged selected, in the order of \<^verbatim>\<open>bm.faces\<close>.\<close>

definition selected_faces :: "BMesh \<Rightarrow> BMFace list" where
  "selected_faces bm = filter f_select (bm_faces bm)"

text \<open>The distinct source vertices that a list of faces refers to.\<close>

definition referenced_verts :: "BMFace list \<Rightarrow> nat set" where
  "referenced_verts F = set (concat (map f_verts F))"

text \<open>
  Every face has at least three corners, no vertex twice, and no two faces of the list
  lie over the same set of vertices.
\<close>

definition selected_faces_ok :: "BMFace list \<Rightarrow> bool" where
  "selected_faces_ok F \<longleftrightarrow>
     list_all (\<lambda>f. 3 \<le> length (f_verts f) \<and> distinct (f_verts f)) F
     \<and> distinct (map (\<lambda>f. set (f_verts f)) F)"

text \<open>
  The same condition relative to the faces \<open>dn\<close> that the loop has already copied.
\<close>

fun ok_from :: "BMFace list \<Rightarrow> BMFace list \<Rightarrow> bool" where
  "ok_from dn [] = True"
| "ok_from dn (f # F) =
     (3 \<le> length (f_verts f) \<and> distinct (f_verts f)
      \<and> (\<forall>g\<in>set dn. set (f_verts g) \<noteq> set (f_verts f)) \<and> ok_from (dn @ [f]) F)"

text \<open>
  The loop invariant of the copy: \<^verbatim>\<open>vert_map\<close> is one-to-one and its values are exactly
  the vertices of \<^verbatim>\<open>new_bm\<close>.
\<close>

definition vm_ok :: "BMesh \<Rightarrow> (nat \<rightharpoonup> nat) \<Rightarrow> bool" where
  "vm_ok nb vm \<longleftrightarrow> inj_on vm (dom vm) \<and> vm ` dom vm = Some ` {..<length (bm_verts nb)}"

text \<open>The face that the loop builds from a source face under a given \<^verbatim>\<open>vert_map\<close>.\<close>

definition image_face :: "(nat \<rightharpoonup> nat) \<Rightarrow> BMFace \<Rightarrow> BMFace" where
  "image_face vm f = \<lparr>f_verts = map (\<lambda>v. the (vm v)) (f_verts f), f_select = False\<rparr>"

text \<open>The state after a finished run is described with the following three notions.\<close>

definition deselected :: "Object list \<Rightarrow> Object list" where
  "deselected obs = map (\<lambda>ob. ob\<lparr>ob_select := False\<rparr>) obs"

definition recentred :: "Mesh \<Rightarrow> Mesh" where
  "recentred me =
     (if bm_verts (me_bm me) = [] then me
      else translate (vec_neg (bounds_center (map v_co (bm_verts (me_bm me))))) me)"

definition grill_base :: "Operator \<Rightarrow> nat \<Rightarrow> BMesh \<Rightarrow> Object" where
  "grill_base self new_mesh new_bm =
     add_modifier_stack self
       \<lparr>ob_name = ''Grill_Base'', ob_type = ''MESH'', ob_data = new_mesh, ob_select = True,
        ob_location = (if bm_verts new_bm = [] then (0, 0, 0)
           else vec_add (0, 0, 0) (bounds_center (map v_co (bm_verts new_bm)))),
        ob_modifiers = []\<rparr>"

text \<open>The five stages as the operator leaves them on the new object.\<close>

definition modifier_stack :: "Operator \<Rightarrow> Modifier list" where
  "modifier_stack self =
     [\<lparr>md_name = ''Grill_Weld'', md_type = ''WELD'',
       md_settings = [''merge_threshold'' \<mapsto> FloatV 0.01]\<rparr>,
      \<lparr>md_name = ''Grill_Thickness'', md_type = ''SOLIDIFY'',
       md_settings = [''thickness'' \<mapsto> FloatV (thickness self), ''offset'' \<mapsto> FloatV 1]\<rparr>,
      \<lparr>md_name = ''Grill_Remesh'', md_type = ''REMESH'',
       md_settings = [''mode'' \<mapsto> EnumV ''VOXEL'',
         ''voxel_size'' \<mapsto> FloatV (remesh_voxel_size self),
         ''use_remove_disconnected'' \<mapsto> BoolV True]\<rparr>,
      \<lparr>md_name = ''Grill_LaplacianSmooth'', md_type = ''LAPLACIANSMOOTH'',
       md_settings = [''iterations'' \<mapsto> IntV 5, ''use_volume_preserve'' \<mapsto> BoolV True]\<rparr>,
      \<lparr>md_name = ''Grill_Decimate'', md_type = ''DECIMATE'',
       md_settings = [''ratio'' \<mapsto> FloatV (decimate_ratio self)]\<rparr>]"

text \<open>
  The checks of lines 49 to 56 pass: the context is in edit mode and the edited object
  \<open>src\<close> is a mesh object. \<open>edit_bmesh\<close> is then the BMesh that line 63 obtains.
\<close>

definition editing :: "Blend \<Rightarrow> nat \<Rightarrow> bool" where
  "editing c src \<longleftrightarrow>
     mode c = ''EDIT_MESH'' \<and> edit_object c = Some src \<and> ob_type (objects c ! src) = ''MESH''"

definition edit_bmesh :: "Blend \<Rightarrow> nat \<Rightarrow> BMesh" where
  "edit_bmesh c src = from_edit_mesh (meshes c ! ob_data (objects c ! src))"

text \<open>The host state once line 71 has created the empty mesh data-block.\<close>

definition with_new_mesh :: "Blend \<Rightarrow> Blend" where
  "with_new_mesh c = c\<lparr>meshes := meshes c @ [\<lparr>me_name = ''Grill_Base_Mesh'', me_bm = bmesh_new\<rparr>]\<rparr>"

text \<open>The host state after a finished run that has built \<open>new_bm\<close>.\<close>

definition finished_state :: "Operator \<Rightarrow> BMesh \<Rightarrow> Blend \<Rightarrow> Blend" where
  "finished_state self new_bm c =
     c\<lparr>meshes := meshes c @ [recentred \<lparr>me_name = ''Grill_Base_Mesh'', me_bm = new_bm\<rparr>],
       objects := deselected (objects c) @ [grill_base self (length (meshes c)) new_bm],
       mode := ''OBJECT'', edit_object := None,
       collection := collection c @ [length (objects c)],
       active := Some (length (objects c))\<rparr>"

section \<open>Example meshes\<close>

text \<open>Four corners of a unit square, all flagged selected.\<close>

definition square_verts :: "BMVert list" where
  "square_verts =
     [\<lparr>v_co = (0, 0, 0), v_select = True\<rparr>, \<lparr>v_co = (1, 0, 0), v_select = True\<rparr>,
      \<lparr>v_co = (1, 1, 0), v_select = True\<rparr>, \<lparr>v_co = (0, 1, 0), v_select = True\<rparr>]"

text \<open>One selected quad.\<close>

definition quad_mesh :: BMesh where
  "quad_mesh = \<lparr>bm_verts = square_verts, bm_faces = [\<lparr>f_verts = [0, 1, 2, 3], f_select = True\<rparr>]\<rparr>"

text \<open>Two selected triangles that share the edge between the vertices 0 and 2.\<close>

definition two_triangles :: BMesh where
  "two_triangles =
     \<lparr>bm_verts = square_verts,
      bm_faces = [\<lparr>f_verts = [0, 1, 2], f_select = True\<rparr>, \<lparr>f_verts = [0, 2, 3], f_select = True\<rparr>]\<rparr>"

text \<open>Two selected triangles over the same three vertices, and an unselected one.\<close>

definition doubled_triangle :: BMesh where
  "doubled_triangle =
     \<lparr>bm_verts = square_verts,
      bm_faces = [\<lparr>f_verts = [0, 1, 2], f_select = True\<rparr>, \<lparr>f_verts = [2, 1, 0], f_select = True\<rparr>,
                  \<lparr>f_verts = [0, 2, 3], f_select = False\<rparr>]\<rparr>"

text \<open>Two selected vertices out of four, and no selected face.\<close>

definition loose_verts :: BMesh where
  "loose_verts =
     \<lparr>bm_verts =
        [\<lparr>v_co = (0, 0, 0), v_select = True\<rparr>, \<lparr>v_co = (1, 0, 0), v_select = False\<rparr>,
         \<lparr>v_co = (1, 1, 0), v_select = False\<rparr>, \<lparr>v_co = (0, 1, 0), v_select = True\<rparr>],
      bm_faces = [\<lparr>f_verts = [0, 1, 2], f_select = False\<rparr>]\<rparr>"

text \<open>Nothing selected.\<close>

definition nothing_selected :: BMesh where
  "nothing_selected =
     \<lparr>bm_verts =
        [\<lparr>v_co = (0, 0, 0), v_select = False\<rparr>, \<lparr>v_co = (1, 0, 0), v_select = False\<rparr>,
         \<lparr>v_co = (1, 1, 0), v_select = False\<rparr>],
      bm_faces = [\<lparr>f_verts = [0, 1, 2], f_select = False\<rparr>]\<rparr>"

text \<open>The copies of the four corners: the same positions, not flagged selected.\<close>

definition copied_square_verts :: "BMVert list" where
  "copied_square_verts =
     [\<lparr>v_co = (0, 0, 0), v_select = False\<rparr>, \<lparr>v_co = (1, 0, 0), v_select = False\<rparr>,
      \<lparr>v_co = (1, 1, 0), v_select = False\<rparr>, \<lparr>v_co = (0, 1, 0), v_select = False\<rparr>]"

text \<open>A scene with one mesh object, the scan, being edited.\<close>

definition scan_scene :: "BMesh \<Rightarrow> Blend" where
  "scan_scene bm =
     \<lparr>meshes = [\<lparr>me_name = ''Scan'', me_bm = bm\<rparr>],
      objects = [\<lparr>ob_name = ''Scan'', ob_type = ''MESH'', ob_data = 0, ob_select = True,
                  ob_location = (0, 0, 0), ob_modifiers = []\<rparr>],
      mode = ''EDIT_MESH'', edit_object = Some 0, collection = [0], active = Some 0\<rparr>"

text \<open>Scene settings outside the limits of all three properties.\<close>

definition wide_scene :: Scene where
  "wide_scene = \<lparr>grillz_thickness = 10, grillz_remesh_voxel_size = 0.001, grillz_decimate_ratio = 7\<rparr>"

section \<open>The loop invariant of the geometry copy\<close>

lemma vm_ok_empty: "vm_ok bmesh_new Map.empty"
  by (simp add: vm_ok_def bmesh_new_def)

lemma vm_ok_card: "vm_ok nb vm \<Longrightarrow> card (dom vm) = length (bm_verts nb)"
proof -
  assume a: "vm_ok nb vm"
  have inj: "inj_on vm (dom vm)" using a by (simp add: vm_ok_def)
  have "card (dom vm) = card (vm ` dom vm)" using card_image[OF inj] by simp
  also have "\<dots> = card (Some ` {..<length (bm_verts nb)})" using a by (simp add: vm_ok_def)
  also have "\<dots> = length (bm_verts nb)" by (simp add: card_image)
  finally show ?thesis .
qed

lemma vm_ok_step:
  assumes "vm_ok nb vm" "vm v = None"
  shows "vm_ok (fst (verts_new nb c)) (vm(v \<mapsto> snd (verts_new nb c)))"
proof -
  let ?n = "length (bm_verts nb)"
  have inj: "inj_on vm (dom vm)" and img: "vm ` dom vm = Some ` {..<?n}"
    using assms(1) by (simp_all add: vm_ok_def)
  have notin: "Some ?n \<notin> vm ` dom vm" using img by auto
  have nn: "vm x \<noteq> Some ?n" for x
  proof
    assume "vm x = Some ?n"
    then have "Some ?n \<in> vm ` dom vm" by (metis domI imageI)
    then show False using notin by simp
  qed
  have vd: "v \<notin> dom vm" using assms(2) by auto
  have d: "dom (vm(v \<mapsto> ?n)) = insert v (dom vm)" by simp
  have i1: "inj_on (vm(v \<mapsto> ?n)) (insert v (dom vm))"
    using inj nn vd by (auto simp: inj_on_def)
  have "(vm(v \<mapsto> ?n)) ` insert v (dom vm) = insert (Some ?n) (vm ` dom vm)"
    using vd by auto
  also have "\<dots> = Some ` {..<Suc ?n}" using img by (auto simp: lessThan_Suc)
  finally show ?thesis using i1 d by (simp add: vm_ok_def verts_new_def)
qed

lemma copy_face_verts_props:
  assumes "copy_face_verts bm vs (nb, vm, nv) = (nb', vm', nv')" "vm_ok nb vm"
  shows "vm_ok nb' vm' \<and> vm \<subseteq>\<^sub>m vm' \<and> dom vm' = dom vm \<union> set vs
       \<and> nv' = nv @ map (\<lambda>v. the (vm' v)) vs \<and> bm_faces nb' = bm_faces nb"
  using assms
proof (induction vs arbitrary: nb vm nv)
  case Nil
  then show ?case by simp
next
  case (Cons v vs)
  show ?case
  proof (cases "vm v")
    case None
    let ?nb1 = "fst (verts_new nb (v_co (bm_verts bm ! v)))"
    let ?n = "snd (verts_new nb (v_co (bm_verts bm ! v)))"
    let ?vm1 = "vm(v \<mapsto> ?n)"
    have run: "copy_face_verts bm vs (?nb1, ?vm1, nv @ [?n]) = (nb', vm', nv')"
      using Cons.prems(1) None by (simp split: prod.splits)
    have ok1: "vm_ok ?nb1 ?vm1" using vm_ok_step[OF Cons.prems(2) None] .
    note IH = Cons.IH[OF run ok1]
    have le: "vm \<subseteq>\<^sub>m ?vm1" using None by (auto simp: map_le_def)
    have "vm \<subseteq>\<^sub>m vm'" using le IH map_le_trans by blast
    moreover have "vm' v = Some ?n" using IH by (auto simp: map_le_def dom_def)
    moreover have "bm_faces ?nb1 = bm_faces nb" by (simp add: verts_new_def)
    ultimately show ?thesis using IH by auto
  next
    case (Some w)
    have run: "copy_face_verts bm vs (nb, vm, nv @ [w]) = (nb', vm', nv')"
      using Cons.prems(1) Some by simp
    note IH = Cons.IH[OF run Cons.prems(2)]
    have "vm' v = Some w" using IH Some by (auto simp: map_le_def dom_def)
    then show ?thesis using IH Some by auto
  qed
qed



lemma ok_from_iff:
  "ok_from dn F \<longleftrightarrow>
     (\<forall>f\<in>set F. 3 \<le> length (f_verts f) \<and> distinct (f_verts f)
         \<and> set (f_verts f) \<notin> (\<lambda>g. set (f_verts g)) ` set dn)
     \<and> distinct (map (\<lambda>f. set (f_verts f)) F)"
  by (induction F arbitrary: dn) (auto simp: image_iff)

lemma ok_from_Nil: "ok_from [] F = selected_faces_ok F"
  by (simp add: ok_from_iff selected_faces_ok_def list_all_iff)

lemma image_face_mono:
  assumes "vm \<subseteq>\<^sub>m vm'" "set (f_verts g) \<subseteq> dom vm"
  shows "image_face vm' g = image_face vm g"
proof -
  have "vm' v = vm v" if "v \<in> set (f_verts g)" for v
    using that assms by (metis map_le_def subsetD)
  then show ?thesis by (simp add: image_face_def)
qed

lemma vm_ok_inj_the:
  assumes "vm_ok nb vm"
  shows "inj_on (\<lambda>v. the (vm v)) (dom vm)"
proof (rule inj_onI)
  fix x y assume "x \<in> dom vm" "y \<in> dom vm" "the (vm x) = the (vm y)"
  then have "vm x = vm y" by auto
  then show "x = y" using assms \<open>x \<in> dom vm\<close> \<open>y \<in> dom vm\<close>
    by (auto simp: vm_ok_def inj_on_def)
qed

lemma faces_new_image:
  assumes ok: "vm_ok nb vm" and fs: "bm_faces nb = map (image_face vm) dn"
    and dn: "\<forall>g\<in>set dn. set (f_verts g) \<subseteq> dom vm" and f: "set (f_verts f) \<subseteq> dom vm"
  shows "faces_new nb (map (\<lambda>v. the (vm v)) (f_verts f)) =
     (if length (f_verts f) < 3 then Inl SequenceTooShort
      else if \<not> distinct (f_verts f) then Inl VertexUsedTwice
      else if \<exists>g\<in>set dn. set (f_verts g) = set (f_verts f) then Inl FaceExists
      else Inr (nb\<lparr>bm_faces := map (image_face vm) (dn @ [f])\<rparr>))"
proof -
  note inj = vm_ok_inj_the[OF ok]
  have d: "distinct (map (\<lambda>v. the (vm v)) (f_verts f)) = distinct (f_verts f)"
    using inj f by (simp add: distinct_map inj_on_subset)
  have e: "((\<lambda>v. the (vm v)) ` set (f_verts g) = (\<lambda>v. the (vm v)) ` set (f_verts f))
            = (set (f_verts g) = set (f_verts f))" if "g \<in> set dn" for g
    by (rule inj_on_image_eq_iff[OF inj]) (use dn f that in auto)
  have ex: "list_ex (\<lambda>h. set (f_verts h) = set (map (\<lambda>v. the (vm v)) (f_verts f))) (bm_faces nb)
      = (\<exists>g\<in>set dn. set (f_verts g) = set (f_verts f))"
    unfolding fs list_ex_iff by (simp add: image_face_def e)
  show ?thesis
    unfolding faces_new_def d ex by (simp add: fs image_face_def)
qed



lemma vm_ok_faces_upd: "vm_ok (nb\<lparr>bm_faces := fs\<rparr>) vm = vm_ok nb vm"
  by (simp add: vm_ok_def)

lemma copy_faces_char:
  assumes "vm_ok nb vm" "bm_faces nb = map (image_face vm) dn"
    "\<forall>g\<in>set dn. set (f_verts g) \<subseteq> dom vm"
  shows "if ok_from dn (filter f_select fs)
         then \<exists>nb' vm'. copy_faces bm fs (nb, vm) = Inr (nb', vm') \<and> vm_ok nb' vm' \<and> vm \<subseteq>\<^sub>m vm'
              \<and> dom vm' = dom vm \<union> (\<Union>f\<in>set (filter f_select fs). set (f_verts f))
              \<and> bm_faces nb' = map (image_face vm') (dn @ filter f_select fs)
         else \<exists>e. copy_faces bm fs (nb, vm) = Inl e"
  using assms
proof (induction fs arbitrary: nb vm dn)
  case Nil
  then show ?case by simp
next
  case (Cons f fs)
  show ?case
  proof (cases "f_select f")
    case False
    then have e1: "copy_faces bm (f # fs) (nb, vm) = copy_faces bm fs (nb, vm)"
      and e2: "filter f_select (f # fs) = filter f_select fs" by simp_all
    show ?thesis unfolding e1 e2 by (rule Cons.IH[OF Cons.prems])
  next
    case True
    obtain nb1 vm1 nv where cfv: "copy_face_verts bm (f_verts f) (nb, vm, []) = (nb1, vm1, nv)"
      by (metis prod_cases3)
    from copy_face_verts_props[OF cfv Cons.prems(1)]
    have ok1: "vm_ok nb1 vm1" and le1: "vm \<subseteq>\<^sub>m vm1"
      and dom1: "dom vm1 = dom vm \<union> set (f_verts f)"
      and nv: "nv = map (\<lambda>v. the (vm1 v)) (f_verts f)"
      and fs1: "bm_faces nb1 = bm_faces nb"
      by simp_all
    have dn1: "\<forall>g\<in>set dn. set (f_verts g) \<subseteq> dom vm1"
      using Cons.prems(3) dom1 by auto
    have "map (image_face vm1) dn = map (image_face vm) dn"
      using image_face_mono[OF le1] Cons.prems(3) by simp
    then have fs1': "bm_faces nb1 = map (image_face vm1) dn"
      using fs1 Cons.prems(2) by simp
    have f1: "set (f_verts f) \<subseteq> dom vm1" using dom1 by simp
    note fn = faces_new_image[OF ok1 fs1' dn1 f1, folded nv]
    let ?hd = "3 \<le> length (f_verts f) \<and> distinct (f_verts f)
      \<and> (\<forall>g\<in>set dn. set (f_verts g) \<noteq> set (f_verts f))"
    show ?thesis
    proof (cases ?hd)
      case False
      then have "\<exists>e. faces_new nb1 nv = Inl e" using fn by auto
      then have "\<exists>e. copy_faces bm (f # fs) (nb, vm) = Inl e"
        using True cfv by auto
      moreover have "\<not> ok_from dn (filter f_select (f # fs))" using False True by auto
      ultimately show ?thesis by simp
    next
      case hd: True
      let ?nb2 = "nb1\<lparr>bm_faces := map (image_face vm1) (dn @ [f])\<rparr>"
      have fn2: "faces_new nb1 nv = Inr ?nb2" using fn hd by auto
      have step: "copy_faces bm (f # fs) (nb, vm) = copy_faces bm fs (?nb2, vm1)"
        using True cfv fn2 by simp
      have ok2: "vm_ok ?nb2 vm1" using ok1 by (simp add: vm_ok_faces_upd)
      have fs2: "bm_faces ?nb2 = map (image_face vm1) (dn @ [f])" by simp
      have dn2: "\<forall>g\<in>set (dn @ [f]). set (f_verts g) \<subseteq> dom vm1" using dn1 f1 by auto
      note IH = Cons.IH[OF ok2 fs2 dn2]
      have okeq: "ok_from dn (filter f_select (f # fs)) = ok_from (dn @ [f]) (filter f_select fs)"
        using True hd by simp
      show ?thesis
      proof (cases "ok_from (dn @ [f]) (filter f_select fs)")
        case False
        then show ?thesis using IH step okeq by simp
      next
        case ok: True
        then obtain nb' vm' where r: "copy_faces bm fs (?nb2, vm1) = Inr (nb', vm')"
          and ok': "vm_ok nb' vm'" and le': "vm1 \<subseteq>\<^sub>m vm'"
          and dom': "dom vm' = dom vm1 \<union> (\<Union>f\<in>set (filter f_select fs). set (f_verts f))"
          and fs': "bm_faces nb' = map (image_face vm') ((dn @ [f]) @ filter f_select fs)"
          using IH by auto
        have "vm \<subseteq>\<^sub>m vm'" using le1 le' map_le_trans by blast
        moreover have "dom vm' = dom vm \<union> (\<Union>f\<in>set (filter f_select (f # fs)). set (f_verts f))"
          using dom' dom1 True by auto
        moreover have "bm_faces nb' = map (image_face vm') (dn @ filter f_select (f # fs))"
          using fs' True by simp
        ultimately show ?thesis using ok okeq step r ok' by simp
      qed
    qed
  qed
qed

lemma copy_selected_verts_result:
  "copy_selected_verts vs nb =
     nb\<lparr>bm_verts := bm_verts nb @
        map (\<lambda>v. \<lparr>v_co = v_co v, v_select = False\<rparr>) (filter v_select vs)\<rparr>"
  by (induction vs arbitrary: nb) (simp_all add: verts_new_def)

lemma build_new_bm_char:
  "if selected_faces_ok (selected_faces bm)
   then \<exists>nb vm. copy_faces bm (bm_faces bm) (bmesh_new, Map.empty) = Inr (nb, vm)
          \<and> vm_ok nb vm \<and> dom vm = (\<Union>f\<in>set (selected_faces bm). set (f_verts f))
          \<and> bm_faces nb = map (image_face vm) (selected_faces bm)
          \<and> build_new_bm bm = Inr (if selected_faces bm = []
                then copy_selected_verts (bm_verts bm) nb else nb)
   else \<exists>e. copy_faces bm (bm_faces bm) (bmesh_new, Map.empty) = Inl e \<and> build_new_bm bm = Inl e"
proof -
  have f0: "bm_faces bmesh_new = map (image_face Map.empty) []" by (simp add: bmesh_new_def)
  have d0: "\<forall>g\<in>set []. set (f_verts g) \<subseteq> dom (Map.empty :: nat \<rightharpoonup> nat)" by simp
  note ch = copy_faces_char[OF vm_ok_empty f0 d0, of "bm_faces bm" bm,
      unfolded ok_from_Nil, folded selected_faces_def]
  show ?thesis
  proof (cases "selected_faces_ok (selected_faces bm)")
    case True
    then obtain nb vm where r: "copy_faces bm (bm_faces bm) (bmesh_new, Map.empty) = Inr (nb, vm)"
      and ok: "vm_ok nb vm"
      and dm: "dom vm = dom (Map.empty :: nat \<rightharpoonup> nat) \<union> (\<Union>f\<in>set (selected_faces bm). set (f_verts f))"
      and fs: "bm_faces nb = map (image_face vm) ([] @ selected_faces bm)"
      using ch by auto
    have "build_new_bm bm = Inr (if selected_faces bm = []
                then copy_selected_verts (bm_verts bm) nb else nb)"
      using r fs by (simp add: build_new_bm_def)
    then show ?thesis using True r ok dm fs by auto
  next
    case False
    then obtain e where "copy_faces bm (bm_faces bm) (bmesh_new, Map.empty) = Inl e"
      using ch by auto
    then show ?thesis using False by (auto simp: build_new_bm_def)
  qed
qed

lemma copy_faces_no_selection:
  "filter f_select fs = [] \<Longrightarrow> copy_faces bm fs (nb, vm) = Inr (nb, vm)"
  by (induction fs) (auto split: if_splits)

lemma extract_selection_Inr_iff:
  "extract_selection bm = Inr out \<longleftrightarrow>
     list_ex v_select (bm_verts bm) \<and> build_new_bm bm = Inr out"
  by (auto simp: extract_selection_def split: sum.splits)

lemma build_new_bm_faces:
  assumes "build_new_bm bm = Inr out" "selected_faces bm \<noteq> []"
  shows "\<exists>vm. copy_faces bm (bm_faces bm) (bmesh_new, Map.empty) = Inr (out, vm)
          \<and> vm_ok out vm \<and> dom vm = referenced_verts (selected_faces bm)
          \<and> bm_faces out = map (image_face vm) (selected_faces bm)"
proof -
  note ch = build_new_bm_char[of bm]
  have ok: "selected_faces_ok (selected_faces bm)"
    using ch assms(1) by (auto split: if_splits)
  then obtain nb vm where r: "copy_faces bm (bm_faces bm) (bmesh_new, Map.empty) = Inr (nb, vm)"
    and v: "vm_ok nb vm" and d: "dom vm = (\<Union>f\<in>set (selected_faces bm). set (f_verts f))"
    and f: "bm_faces nb = map (image_face vm) (selected_faces bm)"
    and b: "build_new_bm bm = Inr (if selected_faces bm = []
                then copy_selected_verts (bm_verts bm) nb else nb)"
    using ch by auto
  have "out = nb" using b assms by simp
  then show ?thesis using r v d f by (auto simp: referenced_verts_def)
qed

section \<open>The steps after the copy\<close>

lemma map_at_length [simp]: "length (map_at k f xs) = length xs"
  by (simp add: map_at_def)

lemma selected_only_last:
  "filter (\<lambda>i. ob_select ((map (\<lambda>ob. ob\<lparr>ob_select := False\<rparr>) xs @ [g\<lparr>ob_select := True\<rparr>]) ! i))
     [0..<Suc (length xs)] = [length xs]"
proof -
  have "filter (\<lambda>i. ob_select ((map (\<lambda>ob. ob\<lparr>ob_select := False\<rparr>) xs @ [g\<lparr>ob_select := True\<rparr>]) ! i))
     [0..<length xs] = []"
    by (simp add: filter_empty_conv nth_append)
  then show ?thesis by (simp add: nth_append)
qed

lemma map_at_snoc: "length xs = n \<Longrightarrow> map_at n f (xs @ [x]) = xs @ [f x]"
  by (auto simp: map_at_def)

lemma origin_set_only_last:
  assumes "ob_type g = ''MESH''" "ob_data g = length ms"
    "objects c = deselected xs @ [g\<lparr>ob_select := True\<rparr>]" "meshes c = ms @ [m]"
  shows "origin_set c =
     c\<lparr>meshes := ms @ [recentred m],
       objects := deselected xs @
         [g\<lparr>ob_select := True,
            ob_location := (if bm_verts (me_bm m) = [] then ob_location g
              else vec_add (ob_location g) (bounds_center (map v_co (bm_verts (me_bm m)))))\<rparr>]\<rparr>"
proof -
  have n: "length (objects c) = Suc (length xs)" using assms(3) by (simp add: deselected_def)
  have sel: "filter (\<lambda>i. ob_select (objects c ! i)) [0..<length (objects c)] = [length xs]"
    using selected_only_last[of xs g] by (simp add: assms(3) deselected_def)
  have ob: "objects c ! length xs = g\<lparr>ob_select := True\<rparr>"
    using assms(3) by (simp add: deselected_def nth_append)
  have me: "meshes c ! length ms = m" using assms(4) by simp
  have l: "length (deselected xs) = length xs" by (simp add: deselected_def)
  have os: "origin_set c = origin_to_bounds (length xs) c"
    by (simp add: origin_set_def sel)
  have c: "c = c\<lparr>meshes := ms @ [m], objects := deselected xs @ [g\<lparr>ob_select := True\<rparr>]\<rparr>"
    using assms(3,4) by simp
  show ?thesis
  proof (cases "bm_verts (me_bm m) = []")
    case True
    then have "origin_to_bounds (length xs) c = c"
      by (simp add: origin_to_bounds_def ob me assms(1,2))
    then show ?thesis using True c by (simp add: os recentred_def)
  next
    case False
    then have "origin_to_bounds (length xs) c =
      c\<lparr>meshes := map_at (length ms)
           (translate (vec_neg (bounds_center (map v_co (bm_verts (me_bm m)))))) (meshes c),
        objects := map_at (length xs)
           (\<lambda>x. x\<lparr>ob_location :=
              vec_add (ob_location x) (bounds_center (map v_co (bm_verts (me_bm m))))\<rparr>)
           (objects c)\<rparr>"
      by (simp add: origin_to_bounds_def ob me assms(1,2) Let_def)
    then show ?thesis using False
      by (simp add: os recentred_def assms(3,4) map_at_snoc l)
  qed
qed

lemma finish_grill_result:
  "finish_grill self new_bm (length ms) (c\<lparr>meshes := ms @ [m]\<rparr>) =
     c\<lparr>meshes := ms @ [recentred (m\<lparr>me_bm := new_bm\<rparr>)],
       objects := deselected (objects c) @ [grill_base self (length ms) new_bm],
       mode := ''OBJECT'', edit_object := None,
       collection := collection c @ [length (objects c)],
       active := Some (length (objects c))\<rparr>"
proof -
  let ?g = "\<lparr>ob_name = ''Grill_Base'', ob_type = ''MESH'', ob_data = length ms,
             ob_select = False, ob_location = (0, 0, 0), ob_modifiers = []\<rparr>"
  let ?c5 = "c\<lparr>meshes := ms @ [m\<lparr>me_bm := new_bm\<rparr>],
       objects := deselected (objects c) @ [?g\<lparr>ob_select := True\<rparr>],
       mode := ''OBJECT'', edit_object := None,
       collection := collection c @ [length (objects c)],
       active := Some (length (objects c))\<rparr>"
  have l: "length (deselected (objects c)) = length (objects c)" by (simp add: deselected_def)
  let ?n = "length (objects c)"
  let ?c1 = "c\<lparr>meshes := ms @ [m\<lparr>me_bm := new_bm\<rparr>]\<rparr>"
  let ?c2 = "?c1\<lparr>objects := objects c @ [?g]\<rparr>"
  have t: "to_mesh new_bm (length ms) (c\<lparr>meshes := ms @ [m]\<rparr>) = ?c1"
    by (simp add: to_mesh_def map_at_snoc)
  have o: "objects_new ''Grill_Base'' (length ms) ?c1 = (?c2, ?n)"
    by (simp add: objects_new_def)
  have pre: "set_active ?n (select_set ?n True
       (select_all_deselect (mode_set ''OBJECT'' (collection_link ?n ?c2)))) = ?c5"
    by (simp add: collection_link_def mode_set_def
        select_all_deselect_def select_set_def set_active_def map_at_snoc l
        deselected_def[symmetric])
  have os: "origin_set ?c5 = ?c5\<lparr>meshes := ms @ [recentred (m\<lparr>me_bm := new_bm\<rparr>)],
       objects := deselected (objects c) @
         [?g\<lparr>ob_select := True,
            ob_location := (if bm_verts new_bm = [] then (0, 0, 0)
              else vec_add (0, 0, 0) (bounds_center (map v_co (bm_verts new_bm))))\<rparr>]\<rparr>"
    using origin_set_only_last[of ?g ms ?c5 "objects c" "m\<lparr>me_bm := new_bm\<rparr>"] by simp
  have "finish_grill self new_bm (length ms) (c\<lparr>meshes := ms @ [m]\<rparr>) =
      (origin_set ?c5)\<lparr>objects := map_at ?n (add_modifier_stack self) (objects (origin_set ?c5))\<rparr>"
    unfolding finish_grill_def Let_def t o prod.case pre ..
  also have "\<dots> = c\<lparr>meshes := ms @ [recentred (m\<lparr>me_bm := new_bm\<rparr>)],
       objects := deselected (objects c) @ [grill_base self (length ms) new_bm],
       mode := ''OBJECT'', edit_object := None,
       collection := collection c @ [length (objects c)],
       active := Some (length (objects c))\<rparr>"
    unfolding os by (simp add: map_at_snoc l grill_base_def)
  finally show ?thesis .
qed

lemma add_modifier_stack_result:
  "ob_modifiers ob = [] \<Longrightarrow> add_modifier_stack self ob = ob\<lparr>ob_modifiers := modifier_stack self\<rparr>"
  by (simp add: add_modifier_stack_def modifiers_new_def mod_setattr_def map_at_def
      modifier_stack_def)

lemma grill_base_result:
  "grill_base self k new_bm =
     \<lparr>ob_name = ''Grill_Base'', ob_type = ''MESH'', ob_data = k, ob_select = True,
        ob_location = (if bm_verts new_bm = [] then (0, 0, 0)
           else vec_add (0, 0, 0) (bounds_center (map v_co (bm_verts new_bm)))),
        ob_modifiers = modifier_stack self\<rparr>"
  by (simp add: grill_base_def add_modifier_stack_result)

section \<open>The runs of the operator\<close>

lemma execute_run:
  assumes "editing c src" "list_ex v_select (bm_verts (edit_bmesh c src))"
  shows "execute self c =
     (case build_new_bm (edit_bmesh c src) of
        Inl e \<Rightarrow> (EXCEPTION e, [], with_new_mesh c)
      | Inr new_bm \<Rightarrow>
          (FINISHED, [(''INFO'', ''Non-destructively generated Grill_Base object.'')],
           finished_state self new_bm c))"
proof -
  have fg: "finish_grill self new_bm (length (meshes c))
        (c\<lparr>meshes := meshes c @ [\<lparr>me_name = ''Grill_Base_Mesh'', me_bm = bmesh_new\<rparr>]\<rparr>)
      = finished_state self new_bm c" for new_bm
    unfolding finish_grill_result finished_state_def by simp
  show ?thesis
    using assms
    by (simp add: execute_def editing_def edit_bmesh_def meshes_new_def fg with_new_mesh_def
        split: sum.splits)
qed

lemma execute_not_editing:
  assumes "\<not> (\<exists>src. editing c src)"
  shows "\<exists>msg. execute self c = (CANCELLED, [(''WARNING'', msg)], c)"
  using assms by (auto simp: execute_def editing_def split: option.splits)

lemma execute_no_selection:
  assumes "editing c src" "\<not> list_ex v_select (bm_verts (edit_bmesh c src))"
  shows "execute self c =
    (CANCELLED, [(''WARNING'', ''You must select the teeth vertices first.'')], c)"
  using assms by (simp add: execute_def editing_def edit_bmesh_def)

lemma execute_cases:
  obtains (cancelled) msg where "execute self c = (CANCELLED, [(''WARNING'', msg)], c)"
  | (exception) e where "execute self c = (EXCEPTION e, [], with_new_mesh c)"
  | (finished) new_bm where
      "execute self c = (FINISHED, [(''INFO'', ''Non-destructively generated Grill_Base object.'')],
           finished_state self new_bm c)"
proof (cases "\<exists>src. editing c src")
  case False
  then show ?thesis using execute_not_editing[of c self] cancelled by blast
next
  case True
  then obtain src where e: "editing c src" ..
  show ?thesis
  proof (cases "list_ex v_select (bm_verts (edit_bmesh c src))")
    case False
    then show ?thesis using execute_no_selection[OF e] cancelled by blast
  next
    case True
    show ?thesis
    proof (cases "build_new_bm (edit_bmesh c src)")
      case (Inl err)
      then show ?thesis using execute_run[OF e True, of self] exception by simp
    next
      case (Inr nb)
      then show ?thesis using execute_run[OF e True, of self] finished by simp
    qed
  qed
qed

section \<open>Facts about finished runs and the example scene\<close>

lemma finished_state_objects:
  "objects (finished_state self new_bm c) =
     deselected (objects c) @ [grill_base self (length (meshes c)) new_bm]"
  by (simp add: finished_state_def)

lemma length_deselected [simp]: "length (deselected obs) = length obs"
  by (simp add: deselected_def)

lemma execute_finished:
  assumes "fst (execute self c) = FINISHED"
  obtains new_bm where
    "execute self c = (FINISHED, [(''INFO'', ''Non-destructively generated Grill_Base object.'')],
           finished_state self new_bm c)"
  using assms by (cases self c rule: execute_cases) auto

lemma finished_modifiers:
  assumes "fst (execute self c) = FINISHED"
  shows "ob_modifiers (objects (snd (snd (execute self c))) ! length (objects c))
           = modifier_stack self"
proof -
  from execute_finished[OF assms] obtain new_bm where
    e: "execute self c = (FINISHED, [(''INFO'', ''Non-destructively generated Grill_Base object.'')],
           finished_state self new_bm c)" by blast
  have "objects (snd (snd (execute self c))) ! length (objects c)
      = grill_base self (length (meshes c)) new_bm"
    unfolding e by (simp add: finished_state_objects nth_append)
  then show ?thesis by (simp add: grill_base_result)
qed

lemma scan_scene_editing: "editing (scan_scene bm) 0"
  by (simp add: editing_def scan_scene_def)

lemma scan_scene_edit_bmesh: "edit_bmesh (scan_scene bm) 0 = bm"
  by (simp add: edit_bmesh_def from_edit_mesh_def scan_scene_def)

lemma quad_mesh_build:
  "build_new_bm quad_mesh =
     Inr \<lparr>bm_verts = copied_square_verts, bm_faces = [\<lparr>f_verts = [0, 1, 2, 3], f_select = False\<rparr>]\<rparr>"
  by (auto simp: build_new_bm_def quad_mesh_def square_verts_def copied_square_verts_def
      verts_new_def faces_new_def bmesh_new_def)

lemma quad_mesh_selected: "list_ex v_select (bm_verts quad_mesh)"
  by (simp add: quad_mesh_def square_verts_def)

lemma quad_scene_finished: "fst (execute self (scan_scene quad_mesh)) = FINISHED"
  using execute_run[OF scan_scene_editing, of quad_mesh self]
  by (simp add: scan_scene_edit_bmesh quad_mesh_selected quad_mesh_build)

section \<open>Vertex and face counts of the extracted mesh\<close>

text \<open>
  Claim C1, as amended. Let a non-empty list \<open>F\<close> of faces be flagged selected. The
  geometry copy returns an output mesh exactly when every face of \<open>F\<close> has at least three
  corners and no vertex twice and no two faces of \<open>F\<close> lie over the same set of vertices;
  the extraction returns it exactly when, in addition, some vertex is flagged selected.
  Every output mesh that is returned has as many vertices as there are distinct source
  vertices referenced by the faces of \<open>F\<close>, and as many faces as \<open>F\<close>.
\<close>

theorem extract_counts:
  assumes "selected_faces bm \<noteq> []"
  shows "((\<exists>out. build_new_bm bm = Inr out) \<longleftrightarrow> selected_faces_ok (selected_faces bm))
       \<and> ((\<exists>out. extract_selection bm = Inr out) \<longleftrightarrow>
            list_ex v_select (bm_verts bm) \<and> selected_faces_ok (selected_faces bm))
       \<and> (\<forall>out. build_new_bm bm = Inr out \<or> extract_selection bm = Inr out \<longrightarrow>
            length (bm_verts out) = card (referenced_verts (selected_faces bm))
            \<and> length (bm_faces out) = length (selected_faces bm))"
proof -
  have a: "(\<exists>out. build_new_bm bm = Inr out) \<longleftrightarrow> selected_faces_ok (selected_faces bm)"
    using build_new_bm_char[of bm] by (auto split: if_splits)
  then have b: "(\<exists>out. extract_selection bm = Inr out) \<longleftrightarrow>
            list_ex v_select (bm_verts bm) \<and> selected_faces_ok (selected_faces bm)"
    by (auto simp: extract_selection_Inr_iff)
  have c: "length (bm_verts out) = card (referenced_verts (selected_faces bm))
            \<and> length (bm_faces out) = length (selected_faces bm)"
    if "build_new_bm bm = Inr out \<or> extract_selection bm = Inr out" for out
  proof -
    have "build_new_bm bm = Inr out" using that by (auto simp: extract_selection_Inr_iff)
    from build_new_bm_faces[OF this assms] obtain vm where
      v: "vm_ok out vm" and d: "dom vm = referenced_verts (selected_faces bm)"
      and f: "bm_faces out = map (image_face vm) (selected_faces bm)" by auto
    show ?thesis using vm_ok_card[OF v] d f by simp
  qed
  show ?thesis using a b c by blast
qed

text \<open>
The selected quad: four vertices and one face.
\<close>

theorem extract_counts_witness:
  "selected_faces quad_mesh \<noteq> []
   \<and> list_ex v_select (bm_verts quad_mesh) \<and> selected_faces_ok (selected_faces quad_mesh)
   \<and> (\<exists>out. extract_selection quad_mesh = Inr out
         \<and> length (bm_verts out) = 4 \<and> length (bm_faces out) = 1)"
proof -
  have h: "selected_faces quad_mesh \<noteq> []"
    by (simp add: selected_faces_def quad_mesh_def)
  have ok: "list_ex v_select (bm_verts quad_mesh)" "selected_faces_ok (selected_faces quad_mesh)"
    by (simp_all add: selected_faces_def quad_mesh_def square_verts_def selected_faces_ok_def)
  have c: "card (referenced_verts (selected_faces quad_mesh)) = 4"
    by (simp add: selected_faces_def quad_mesh_def referenced_verts_def)
  have l: "length (selected_faces quad_mesh) = 1"
    by (simp add: selected_faces_def quad_mesh_def)
  show ?thesis using extract_counts[OF h] h ok c l by auto
qed

text \<open>
  Without the condition on the faces no mesh need be returned: with two selected triangles
  over the same three vertices, all of them flagged selected, the second face is refused
  by the face constructor and the exception leaves the operator.
\<close>

theorem extract_counts_counterexample:
  "selected_faces doubled_triangle \<noteq> []
   \<and> list_ex v_select (bm_verts doubled_triangle)
   \<and> extract_selection doubled_triangle = Inl (Raised FaceExists)"
  by (auto simp: selected_faces_def extract_selection_def build_new_bm_def doubled_triangle_def
      square_verts_def verts_new_def faces_new_def bmesh_new_def)

section \<open>Shared vertices\<close>

lemma vm_ok_eq_iff:
  assumes "vm_ok nb vm" "x \<in> dom vm" "y \<in> dom vm"
  shows "(the (vm x) = the (vm y)) = (x = y)"
  using vm_ok_inj_the[OF assms(1)] assms(2,3) by (auto simp: inj_on_def)

lemma two_triangles_ok:
  assumes "length (f_verts f1) = 3" "length (f_verts f2) = 3"
    "distinct (f_verts f1)" "distinct (f_verts f2)"
    "card (set (f_verts f1) \<inter> set (f_verts f2)) = 2"
  shows "selected_faces_ok [f1, f2]" "card (referenced_verts [f1, f2]) = 4"
proof -
  have c1: "card (set (f_verts f1)) = 3" and c2: "card (set (f_verts f2)) = 3"
    using assms by (simp_all add: distinct_card)
  have ne: "set (f_verts f1) \<noteq> set (f_verts f2)"
  proof
    assume "set (f_verts f1) = set (f_verts f2)"
    then have "card (set (f_verts f1) \<inter> set (f_verts f2)) = 3" using c1 by simp
    then show False using assms(5) by simp
  qed
  show "selected_faces_ok [f1, f2]"
    using assms ne by (simp add: selected_faces_ok_def)
  have "card (set (f_verts f1) \<union> set (f_verts f2)) + card (set (f_verts f1) \<inter> set (f_verts f2))
      = card (set (f_verts f1)) + card (set (f_verts f2))"
    using card_Un_Int[of "set (f_verts f1)" "set (f_verts f2)"] by simp
  then show "card (referenced_verts [f1, f2]) = 4"
    using c1 c2 assms(5) by (simp add: referenced_verts_def)
qed

text \<open>
  Claim C2. Whenever an output mesh is returned for a non-empty selection of faces, the
  output faces correspond to the selected faces one by one and corner by corner, and two
  corners of output faces are the same output vertex exactly when the corresponding
  corners of the selected faces are the same source vertex; so the output has as many
  vertices as there are distinct source vertices referenced, not the sum of the corners.
  In particular, when the selected faces are two triangles that share an edge (two common
  vertices, four vertices in all), the geometry copy returns a mesh with exactly 4
  vertices and 2 faces, and this mesh is what the extraction returns once its check that
  some vertex is flagged selected has passed.
\<close>

theorem shared_vertices:
  "((build_new_bm bm = Inr out \<or> extract_selection bm = Inr out)
      \<and> selected_faces bm \<noteq> [] \<longrightarrow>
      length (bm_faces out) = length (selected_faces bm)
      \<and> length (bm_verts out) = card (referenced_verts (selected_faces bm))
      \<and> (\<forall>i<length (selected_faces bm). \<forall>j<length (selected_faces bm).
           length (f_verts (bm_faces out ! i)) = length (f_verts (selected_faces bm ! i))
           \<and> (\<forall>p<length (f_verts (selected_faces bm ! i)).
               \<forall>q<length (f_verts (selected_faces bm ! j)).
                 (f_verts (bm_faces out ! i) ! p = f_verts (bm_faces out ! j) ! q)
                 = (f_verts (selected_faces bm ! i) ! p = f_verts (selected_faces bm ! j) ! q))))
   \<and> (selected_faces bm = [f1, f2] \<and> length (f_verts f1) = 3 \<and> length (f_verts f2) = 3
        \<and> distinct (f_verts f1) \<and> distinct (f_verts f2)
        \<and> card (set (f_verts f1) \<inter> set (f_verts f2)) = 2 \<longrightarrow>
        (\<exists>new_bm. build_new_bm bm = Inr new_bm
           \<and> length (bm_verts new_bm) = 4 \<and> length (bm_faces new_bm) = 2
           \<and> extract_selection bm =
               (if list_ex v_select (bm_verts bm) then Inr new_bm else Inl NoSelection)))"
proof (intro conjI impI)
  assume "(build_new_bm bm = Inr out \<or> extract_selection bm = Inr out)
      \<and> selected_faces bm \<noteq> []"
  then have a: "build_new_bm bm = Inr out \<and> selected_faces bm \<noteq> []"
    by (auto simp: extract_selection_Inr_iff)
  let ?F = "selected_faces bm"
  from build_new_bm_faces[of bm out] a obtain vm where
    v: "vm_ok out vm" and d: "dom vm = referenced_verts ?F"
    and f: "bm_faces out = map (image_face vm) ?F" by auto
  show "length (bm_faces out) = length ?F" using f by simp
  show "length (bm_verts out) = card (referenced_verts ?F)"
    using vm_ok_card[OF v] d by simp
  show "\<forall>i<length ?F. \<forall>j<length ?F.
           length (f_verts (bm_faces out ! i)) = length (f_verts (?F ! i))
           \<and> (\<forall>p<length (f_verts (?F ! i)). \<forall>q<length (f_verts (?F ! j)).
                 (f_verts (bm_faces out ! i) ! p = f_verts (bm_faces out ! j) ! q)
                 = (f_verts (?F ! i) ! p = f_verts (?F ! j) ! q))"
  proof (intro allI impI conjI)
    fix i j assume i: "i < length ?F" and j: "j < length ?F"
    show "length (f_verts (bm_faces out ! i)) = length (f_verts (?F ! i))"
      using i f by (simp add: image_face_def)
    fix p q assume p: "p < length (f_verts (?F ! i))" and q: "q < length (f_verts (?F ! j))"
    have x: "f_verts (?F ! i) ! p \<in> dom vm"
      unfolding d referenced_verts_def using i p by (auto intro!: bexI[of _ "?F ! i"])
    have y: "f_verts (?F ! j) ! q \<in> dom vm"
      unfolding d referenced_verts_def using j q by (auto intro!: bexI[of _ "?F ! j"])
    show "(f_verts (bm_faces out ! i) ! p = f_verts (bm_faces out ! j) ! q)
                 = (f_verts (?F ! i) ! p = f_verts (?F ! j) ! q)"
      using vm_ok_eq_iff[OF v x y] i j p q f by (simp add: image_face_def)
  qed
next
  assume s: "selected_faces bm = [f1, f2] \<and> length (f_verts f1) = 3 \<and> length (f_verts f2) = 3
        \<and> distinct (f_verts f1) \<and> distinct (f_verts f2)
        \<and> card (set (f_verts f1) \<inter> set (f_verts f2)) = 2"
  then have ok: "selected_faces_ok (selected_faces bm)"
    and c: "card (referenced_verts (selected_faces bm)) = 4"
    using two_triangles_ok[of f1 f2] by simp_all
  have ne: "selected_faces bm \<noteq> []" using s by simp
  from build_new_bm_char[of bm] ok obtain new_bm where b: "build_new_bm bm = Inr new_bm"
    by auto
  from build_new_bm_faces[OF b ne] obtain vm where
    v: "vm_ok new_bm vm" and d: "dom vm = referenced_verts (selected_faces bm)"
    and f: "bm_faces new_bm = map (image_face vm) (selected_faces bm)" by auto
  have "length (bm_verts new_bm) = 4" using vm_ok_card[OF v] d c by simp
  moreover have "length (bm_faces new_bm) = 2" using f s by simp
  moreover have "extract_selection bm =
               (if list_ex v_select (bm_verts bm) then Inr new_bm else Inl NoSelection)"
    using b by (simp add: extract_selection_def)
  ultimately show "\<exists>new_bm. build_new_bm bm = Inr new_bm
           \<and> length (bm_verts new_bm) = 4 \<and> length (bm_faces new_bm) = 2
           \<and> extract_selection bm =
               (if list_ex v_select (bm_verts bm) then Inr new_bm else Inl NoSelection)"
    using b by blast
qed

text \<open>
  The two triangles of the unit square: the corner shared by both faces is the same
  output vertex, and the output has 4 vertices and 2 faces.
\<close>

theorem shared_vertices_witness:
  "build_new_bm two_triangles =
     Inr \<lparr>bm_verts = copied_square_verts,
          bm_faces = [\<lparr>f_verts = [0, 1, 2], f_select = False\<rparr>,
                      \<lparr>f_verts = [0, 2, 3], f_select = False\<rparr>]\<rparr>
   \<and> selected_faces two_triangles =
       [\<lparr>f_verts = [0, 1, 2], f_select = True\<rparr>, \<lparr>f_verts = [0, 2, 3], f_select = True\<rparr>]
   \<and> card (set [0, 1, 2 :: nat] \<inter> set [0, 2, 3]) = 2
   \<and> (\<exists>new_bm. extract_selection two_triangles = Inr new_bm
         \<and> length (bm_verts new_bm) = 4 \<and> length (bm_faces new_bm) = 2)"
proof -
  let ?out = "\<lparr>bm_verts = copied_square_verts,
          bm_faces = [\<lparr>f_verts = [0, 1, 2], f_select = False\<rparr>,
                      \<lparr>f_verts = [0, 2, 3], f_select = False\<rparr>]\<rparr>"
  let ?f1 = "\<lparr>f_verts = [0, 1, 2], f_select = True\<rparr>"
  let ?f2 = "\<lparr>f_verts = [0, 2, 3], f_select = True\<rparr>"
  have b: "build_new_bm two_triangles = Inr ?out"
    by (auto simp: build_new_bm_def two_triangles_def square_verts_def copied_square_verts_def
        verts_new_def faces_new_def bmesh_new_def)
  have s: "selected_faces two_triangles = [?f1, ?f2]"
    by (simp add: selected_faces_def two_triangles_def)
  have i: "set [0, 1, 2 :: nat] \<inter> set [0, 2, 3] = {0, 2}" by auto
  have c: "card (set [0, 1, 2 :: nat] \<inter> set [0, 2, 3]) = 2" unfolding i by simp
  have v: "list_ex v_select (bm_verts two_triangles)"
    by (simp add: two_triangles_def square_verts_def)
  show ?thesis
    using shared_vertices[of two_triangles ?out ?f1 ?f2] b s c v by auto
qed

section \<open>The selection check\<close>

text \<open>
  Claim C3. When the checks on mode and object pass and no vertex of the edited mesh is
  flagged selected, the run is cancelled with the warning of line 67 and the host state
  is the state before the run: no mesh data-block and no object has been created. The
  extraction fails with the no-selection error.
\<close>

theorem no_selection_cancels:
  assumes "editing c src" "\<not> list_ex v_select (bm_verts (edit_bmesh c src))"
  shows "execute self c =
           (CANCELLED, [(''WARNING'', ''You must select the teeth vertices first.'')], c)
       \<and> extract_selection (edit_bmesh c src) = Inl NoSelection"
  using assms by (simp add: execute_no_selection extract_selection_def)

text \<open>
A scan in which nothing is selected.
\<close>

theorem no_selection_cancels_witness:
  "editing (scan_scene nothing_selected) 0
   \<and> \<not> list_ex v_select (bm_verts (edit_bmesh (scan_scene nothing_selected) 0))
   \<and> execute operator_new (scan_scene nothing_selected) =
       (CANCELLED, [(''WARNING'', ''You must select the teeth vertices first.'')],
        scan_scene nothing_selected)
   \<and> meshes (snd (snd (execute operator_new (scan_scene nothing_selected)))) =
       [\<lparr>me_name = ''Scan'', me_bm = nothing_selected\<rparr>]
   \<and> length (objects (snd (snd (execute operator_new (scan_scene nothing_selected))))) = 1"
proof -
  have e: "editing (scan_scene nothing_selected) 0"
    by (simp add: editing_def scan_scene_def)
  have n: "\<not> list_ex v_select (bm_verts (edit_bmesh (scan_scene nothing_selected) 0))"
    by (simp add: edit_bmesh_def from_edit_mesh_def scan_scene_def nothing_selected_def)
  show ?thesis
    using no_selection_cancels[OF e n, of operator_new] e n by (simp add: scan_scene_def)
qed

section \<open>The vertex fallback\<close>

text \<open>
  Claim C4. Let at least one vertex be flagged selected. The face loop ends with zero
  output faces exactly when no face is flagged selected, and then the extraction returns
  a mesh with one vertex for every selected source vertex, at the same position and in
  the same order, and with no face.
\<close>

theorem vertex_fallback:
  assumes "list_ex v_select (bm_verts bm)"
  shows "((\<exists>nb vm. copy_faces bm (bm_faces bm) (bmesh_new, Map.empty) = Inr (nb, vm)
             \<and> bm_faces nb = []) \<longleftrightarrow> selected_faces bm = [])
       \<and> (selected_faces bm = [] \<longrightarrow>
            (\<exists>out. extract_selection bm = Inr out
               \<and> length (bm_verts out) = length (filter v_select (bm_verts bm))
               \<and> map v_co (bm_verts out) = map v_co (filter v_select (bm_verts bm))
               \<and> bm_faces out = []))"
proof (intro conjI impI)
  show "(\<exists>nb vm. copy_faces bm (bm_faces bm) (bmesh_new, Map.empty) = Inr (nb, vm)
             \<and> bm_faces nb = []) \<longleftrightarrow> selected_faces bm = []"
  proof
    assume "\<exists>nb vm. copy_faces bm (bm_faces bm) (bmesh_new, Map.empty) = Inr (nb, vm)
             \<and> bm_faces nb = []"
    then obtain nb vm where r: "copy_faces bm (bm_faces bm) (bmesh_new, Map.empty) = Inr (nb, vm)"
      and e: "bm_faces nb = []" by blast
    show "selected_faces bm = []"
    proof (rule ccontr)
      assume ne: "selected_faces bm \<noteq> []"
      have "build_new_bm bm = Inr nb" using r e ne
        using build_new_bm_char[of bm] by (auto split: if_splits)
      from build_new_bm_faces[OF this ne] have "bm_faces nb \<noteq> []" using ne by auto
      then show False using e by simp
    qed
  next
    assume "selected_faces bm = []"
    then have "copy_faces bm (bm_faces bm) (bmesh_new, Map.empty) = Inr (bmesh_new, Map.empty)"
      by (simp add: copy_faces_no_selection selected_faces_def)
    then show "\<exists>nb vm. copy_faces bm (bm_faces bm) (bmesh_new, Map.empty) = Inr (nb, vm)
             \<and> bm_faces nb = []"
      by (simp add: bmesh_new_def)
  qed
next
  assume "selected_faces bm = []"
  then have "copy_faces bm (bm_faces bm) (bmesh_new, Map.empty) = Inr (bmesh_new, Map.empty)"
    by (simp add: copy_faces_no_selection selected_faces_def)
  then have "extract_selection bm = Inr (copy_selected_verts (bm_verts bm) bmesh_new)"
    using assms by (simp add: extract_selection_def build_new_bm_def bmesh_new_def)
  then show "\<exists>out. extract_selection bm = Inr out
               \<and> length (bm_verts out) = length (filter v_select (bm_verts bm))
               \<and> map v_co (bm_verts out) = map v_co (filter v_select (bm_verts bm))
               \<and> bm_faces out = []"
    by (simp add: copy_selected_verts_result bmesh_new_def comp_def)
qed

text \<open>
Two selected vertices and no selected face.
\<close>

theorem vertex_fallback_witness:
  "list_ex v_select (bm_verts loose_verts) \<and> selected_faces loose_verts = []
   \<and> length (filter v_select (bm_verts loose_verts)) = 2
   \<and> (\<exists>out. extract_selection loose_verts = Inr out
         \<and> length (bm_verts out) = 2 \<and> bm_faces out = [])"
proof -
  have v: "list_ex v_select (bm_verts loose_verts)" by (simp add: loose_verts_def)
  have s: "selected_faces loose_verts = []" by (simp add: selected_faces_def loose_verts_def)
  have l: "length (filter v_select (bm_verts loose_verts)) = 2" by (simp add: loose_verts_def)
  show ?thesis using vertex_fallback[OF v] v s l by auto
qed

section \<open>The modifier stack\<close>

text \<open>
  Claim C5. After every finished run there is exactly one new object; the modifier stacks
  of the objects that existed before are as they were; and the stack of the new object
  consists of exactly five modifiers, in this order: Weld with merge threshold 0.01,
  Solidify with the thickness property and offset 1, voxel Remesh with the voxel-size
  property and removal of disconnected parts, Laplacian Smooth with 5 iterations and
  volume preservation, Decimate with the ratio property.
\<close>

theorem modifier_stack_attached:
  assumes "fst (execute self c) = FINISHED"
  shows "length (objects (snd (snd (execute self c)))) = Suc (length (objects c))
    \<and> map ob_modifiers (take (length (objects c)) (objects (snd (snd (execute self c)))))
        = map ob_modifiers (objects c)
    \<and> ob_modifiers (objects (snd (snd (execute self c))) ! length (objects c)) =
     [\<lparr>md_name = ''Grill_Weld'', md_type = ''WELD'',
       md_settings = [''merge_threshold'' \<mapsto> FloatV 0.01]\<rparr>,
      \<lparr>md_name = ''Grill_Thickness'', md_type = ''SOLIDIFY'',
       md_settings = [''thickness'' \<mapsto> FloatV (thickness self), ''offset'' \<mapsto> FloatV 1]\<rparr>,
      \<lparr>md_name = ''Grill_Remesh'', md_type = ''REMESH'',
       md_settings = [''mode'' \<mapsto> EnumV ''VOXEL'',
         ''voxel_size'' \<mapsto> FloatV (remesh_voxel_size self),
         ''use_remove_disconnected'' \<mapsto> BoolV True]\<rparr>,
      \<lparr>md_name = ''Grill_LaplacianSmooth'', md_type = ''LAPLACIANSMOOTH'',
       md_settings = [''iterations'' \<mapsto> IntV 5, ''use_volume_preserve'' \<mapsto> BoolV True]\<rparr>,
      \<lparr>md_name = ''Grill_Decimate'', md_type = ''DECIMATE'',
       md_settings = [''ratio'' \<mapsto> FloatV (decimate_ratio self)]\<rparr>]"
proof -
  from execute_finished[OF assms] obtain new_bm where
    e: "execute self c = (FINISHED, [(''INFO'', ''Non-destructively generated Grill_Base object.'')],
           finished_state self new_bm c)" by blast
  have r: "objects (snd (snd (execute self c))) =
      deselected (objects c) @ [grill_base self (length (meshes c)) new_bm]"
    unfolding e by (simp add: finished_state_objects)
  have a: "length (objects (snd (snd (execute self c)))) = Suc (length (objects c))"
    unfolding r by simp
  have "take (length (objects c)) (objects (snd (snd (execute self c)))) = deselected (objects c)"
    unfolding r by simp
  then have b: "map ob_modifiers (take (length (objects c)) (objects (snd (snd (execute self c)))))
        = map ob_modifiers (objects c)"
    by (simp add: deselected_def)
  have "objects (snd (snd (execute self c))) ! length (objects c)
      = grill_base self (length (meshes c)) new_bm"
    unfolding r by (simp add: nth_append)
  then have c: "ob_modifiers (objects (snd (snd (execute self c))) ! length (objects c))
      = modifier_stack self"
    by (simp add: grill_base_result)
  show ?thesis using a b c unfolding modifier_stack_def by blast
qed

text \<open>
The selected quad with the default properties.
\<close>

theorem modifier_stack_attached_witness:
  "fst (execute operator_new (scan_scene quad_mesh)) = FINISHED
   \<and> length (objects (snd (snd (execute operator_new (scan_scene quad_mesh))))) = 2
   \<and> map md_type (ob_modifiers (objects (snd (snd (execute operator_new (scan_scene quad_mesh)))) ! 1))
       = [''WELD'', ''SOLIDIFY'', ''REMESH'', ''LAPLACIANSMOOTH'', ''DECIMATE'']
   \<and> md_settings (ob_modifiers (objects (snd (snd (execute operator_new (scan_scene quad_mesh)))) ! 1) ! 1)
         ''thickness'' = Some (FloatV 0.6)"
proof -
  have l: "length (objects (scan_scene quad_mesh)) = 1" by (simp add: scan_scene_def)
  have t: "thickness operator_new = 0.6" by (simp add: operator_new_def thickness_prop_def)
  show ?thesis
    using modifier_stack_attached[OF quad_scene_finished, of operator_new] quad_scene_finished l t
    by simp
qed

section \<open>Failed checks\<close>

text \<open>
  Claim C6. When the context is not in edit mode, or no object is edited, or the edited
  object is not a mesh, or no vertex is flagged selected, the run is cancelled with one
  warning and the host state is the state before the run: no mesh data-block, no object
  and no modifier has been added anywhere.
\<close>

theorem failed_checks_leave_no_state:
  assumes "mode c \<noteq> ''EDIT_MESH'' \<or> edit_object c = None
     \<or> (\<exists>src. edit_object c = Some src
           \<and> (ob_type (objects c ! src) \<noteq> ''MESH''
                \<or> \<not> list_ex v_select (bm_verts (edit_bmesh c src))))"
  shows "fst (execute self c) = CANCELLED
     \<and> (\<exists>msg. fst (snd (execute self c)) = [(''WARNING'', msg)])
     \<and> snd (snd (execute self c)) = c"
proof (cases "\<exists>src. editing c src")
  case False
  then show ?thesis using execute_not_editing[of c self] by auto
next
  case True
  then obtain src where e: "editing c src" ..
  then have "\<not> list_ex v_select (bm_verts (edit_bmesh c src))"
    using assms by (auto simp: editing_def)
  then show ?thesis using execute_no_selection[OF e, of self] by simp
qed

text \<open>
The scan scene in object mode.
\<close>

theorem failed_checks_leave_no_state_witness:
  "mode ((scan_scene quad_mesh)\<lparr>mode := ''OBJECT''\<rparr>) \<noteq> ''EDIT_MESH''
   \<and> execute operator_new ((scan_scene quad_mesh)\<lparr>mode := ''OBJECT''\<rparr>) =
       (CANCELLED, [(''WARNING'', ''Please switch to Edit Mode to select teeth.'')],
        (scan_scene quad_mesh)\<lparr>mode := ''OBJECT''\<rparr>)
   \<and> length (meshes (snd (snd (execute operator_new ((scan_scene quad_mesh)\<lparr>mode := ''OBJECT''\<rparr>))))) = 1
   \<and> length (objects (snd (snd (execute operator_new ((scan_scene quad_mesh)\<lparr>mode := ''OBJECT''\<rparr>))))) = 1"
proof -
  let ?c = "(scan_scene quad_mesh)\<lparr>mode := ''OBJECT''\<rparr>"
  have m: "mode ?c \<noteq> ''EDIT_MESH''" by simp
  have x: "execute operator_new ?c =
       (CANCELLED, [(''WARNING'', ''Please switch to Edit Mode to select teeth.'')], ?c)"
    by (simp add: execute_def)
  have l: "length (meshes ?c) = 1" "length (objects ?c) = 1" by (simp_all add: scan_scene_def)
  show ?thesis
    using failed_checks_leave_no_state[of ?c operator_new] m x l by simp
qed

section \<open>The source mesh\<close>

text \<open>
  Claim C7. After every run, whatever its outcome, every mesh data-block that existed
  before the run is unchanged, vertices, faces, positions and flags, and every object
  that existed before still refers to the same mesh data-block; so the mesh of the edited
  object \<open>src\<close> is the same after the run as before.
\<close>

theorem source_mesh_unchanged:
  "take (length (meshes c)) (meshes (snd (snd (execute self c)))) = meshes c
   \<and> map ob_data (take (length (objects c)) (objects (snd (snd (execute self c)))))
       = map ob_data (objects c)
   \<and> (src < length (objects c) \<and> ob_data (objects c ! src) < length (meshes c) \<longrightarrow>
        meshes (snd (snd (execute self c))) ! ob_data (objects (snd (snd (execute self c))) ! src)
        = meshes c ! ob_data (objects c ! src))"
proof -
  let ?c' = "snd (snd (execute self c))"
  have ab: "take (length (meshes c)) (meshes ?c') = meshes c
    \<and> map ob_data (take (length (objects c)) (objects ?c')) = map ob_data (objects c)"
  proof (cases self c rule: execute_cases)
    case (cancelled msg)
    show ?thesis unfolding cancelled by simp
  next
    case (exception e)
    show ?thesis unfolding exception by (simp add: with_new_mesh_def)
  next
    case (finished new_bm)
    show ?thesis unfolding finished by (simp add: finished_state_def deselected_def)
  qed
  then have a: "take (length (meshes c)) (meshes ?c') = meshes c"
    and b: "map ob_data (take (length (objects c)) (objects ?c')) = map ob_data (objects c)"
    by simp_all
  have c: "meshes ?c' ! ob_data (objects ?c' ! src) = meshes c ! ob_data (objects c ! src)"
    if s: "src < length (objects c)" and d: "ob_data (objects c ! src) < length (meshes c)"
  proof -
    have "ob_data (objects ?c' ! src) = map ob_data (take (length (objects c)) (objects ?c')) ! src"
      using s b by (metis length_map nth_map nth_take)
    then have o: "ob_data (objects ?c' ! src) = ob_data (objects c ! src)"
      using b s by simp
    have "meshes ?c' ! ob_data (objects c ! src)
        = take (length (meshes c)) (meshes ?c') ! ob_data (objects c ! src)"
      using d by simp
    then show ?thesis using a o by simp
  qed
  show ?thesis using a b c by blast
qed

text \<open>
A finished run on the selected quad leaves the scan as it was.
\<close>

theorem source_mesh_unchanged_witness:
  "(0::nat) < length (objects (scan_scene quad_mesh))
   \<and> ob_data (objects (scan_scene quad_mesh) ! 0) < length (meshes (scan_scene quad_mesh))
   \<and> fst (execute operator_new (scan_scene quad_mesh)) = FINISHED
   \<and> meshes (snd (snd (execute operator_new (scan_scene quad_mesh))))
        ! ob_data (objects (snd (snd (execute operator_new (scan_scene quad_mesh)))) ! 0)
       = \<lparr>me_name = ''Scan'', me_bm = quad_mesh\<rparr>"
proof -
  have h: "(0::nat) < length (objects (scan_scene quad_mesh))"
    "ob_data (objects (scan_scene quad_mesh) ! 0) < length (meshes (scan_scene quad_mesh))"
    by (simp_all add: scan_scene_def)
  have m: "meshes (scan_scene quad_mesh) ! ob_data (objects (scan_scene quad_mesh) ! 0)
      = \<lparr>me_name = ''Scan'', me_bm = quad_mesh\<rparr>"
    by (simp add: scan_scene_def)
  show ?thesis
    using source_mesh_unchanged[of "scan_scene quad_mesh" operator_new 0] h m quad_scene_finished
    by simp
qed

section \<open>Property limits\<close>

lemma float_set_range:
  "fp_min p \<le> fp_max p \<Longrightarrow> fp_min p \<le> float_set p v \<and> float_set p v \<le> fp_max p"
  by (simp add: float_set_def)

lemma configured_range:
  "configured self \<Longrightarrow>
     0.2 \<le> thickness self \<and> thickness self \<le> 5.0
     \<and> 0.01 \<le> remesh_voxel_size self \<and> remesh_voxel_size self \<le> 1.0
     \<and> 0.05 \<le> decimate_ratio self \<and> decimate_ratio self \<le> 1.0"
proof (induction rule: configured.induct)
  case fresh
  show ?case
    by (simp add: operator_new_def thickness_prop_def remesh_voxel_size_prop_def
        decimate_ratio_prop_def)
next
  case (thickness op v)
  then show ?case
    using float_set_range[of thickness_prop v]
    by (simp add: set_thickness_def thickness_prop_def)
next
  case (remesh_voxel_size op v)
  then show ?case
    using float_set_range[of remesh_voxel_size_prop v]
    by (simp add: set_remesh_voxel_size_def remesh_voxel_size_prop_def)
next
  case (decimate_ratio op v)
  then show ?case
    using float_set_range[of decimate_ratio_prop v]
    by (simp add: set_decimate_ratio_def decimate_ratio_prop_def)
qed

text \<open>
  Claim C8. Every assignment to one of the three operator properties stores a value
  within the limits of that property: thickness in [0.2, 5.0], voxel size in [0.01, 1.0],
  decimate ratio in [0.05, 1.0]. For an operator instance obtained from a fresh one by
  property assignments, the values that a finished run writes into the Solidify, Remesh
  and Decimate settings lie within these limits.
\<close>

theorem properties_clamped:
  "(0.2 \<le> thickness (set_thickness v op) \<and> thickness (set_thickness v op) \<le> 5.0
    \<and> 0.01 \<le> remesh_voxel_size (set_remesh_voxel_size v op)
    \<and> remesh_voxel_size (set_remesh_voxel_size v op) \<le> 1.0
    \<and> 0.05 \<le> decimate_ratio (set_decimate_ratio v op)
    \<and> decimate_ratio (set_decimate_ratio v op) \<le> 1.0)
   \<and> (configured self \<and> fst (execute self c) = FINISHED \<longrightarrow>
        (\<exists>t s r.
           md_settings (ob_modifiers (objects (snd (snd (execute self c))) ! length (objects c)) ! 1)
             ''thickness'' = Some (FloatV t) \<and> 0.2 \<le> t \<and> t \<le> 5.0
         \<and> md_settings (ob_modifiers (objects (snd (snd (execute self c))) ! length (objects c)) ! 2)
             ''voxel_size'' = Some (FloatV s) \<and> 0.01 \<le> s \<and> s \<le> 1.0
         \<and> md_settings (ob_modifiers (objects (snd (snd (execute self c))) ! length (objects c)) ! 4)
             ''ratio'' = Some (FloatV r) \<and> 0.05 \<le> r \<and> r \<le> 1.0))"
proof (intro conjI impI)
  show "0.2 \<le> thickness (set_thickness v op)" "thickness (set_thickness v op) \<le> 5.0"
    using float_set_range[of thickness_prop v]
    by (simp_all add: set_thickness_def thickness_prop_def)
  show "0.01 \<le> remesh_voxel_size (set_remesh_voxel_size v op)"
    "remesh_voxel_size (set_remesh_voxel_size v op) \<le> 1.0"
    using float_set_range[of remesh_voxel_size_prop v]
    by (simp_all add: set_remesh_voxel_size_def remesh_voxel_size_prop_def)
  show "0.05 \<le> decimate_ratio (set_decimate_ratio v op)"
    "decimate_ratio (set_decimate_ratio v op) \<le> 1.0"
    using float_set_range[of decimate_ratio_prop v]
    by (simp_all add: set_decimate_ratio_def decimate_ratio_prop_def)
next
  assume a: "configured self \<and> fst (execute self c) = FINISHED"
  let ?g = "objects (snd (snd (execute self c))) ! length (objects c)"
  from a execute_finished obtain new_bm where
    e: "execute self c = (FINISHED, [(''INFO'', ''Non-destructively generated Grill_Base object.'')],
           finished_state self new_bm c)" by blast
  have "?g = grill_base self (length (meshes c)) new_bm"
    unfolding e by (simp add: finished_state_objects nth_append)
  then have m: "ob_modifiers ?g = modifier_stack self" by (simp add: grill_base_result)
  have "md_settings (ob_modifiers ?g ! 1) ''thickness'' = Some (FloatV (thickness self))"
    "md_settings (ob_modifiers ?g ! 2) ''voxel_size'' = Some (FloatV (remesh_voxel_size self))"
    "md_settings (ob_modifiers ?g ! 4) ''ratio'' = Some (FloatV (decimate_ratio self))"
    unfolding m by (simp_all add: modifier_stack_def)
  then show "\<exists>t s r.
           md_settings (ob_modifiers ?g ! 1) ''thickness'' = Some (FloatV t) \<and> 0.2 \<le> t \<and> t \<le> 5.0
         \<and> md_settings (ob_modifiers ?g ! 2) ''voxel_size'' = Some (FloatV s) \<and> 0.01 \<le> s \<and> s \<le> 1.0
         \<and> md_settings (ob_modifiers ?g ! 4) ''ratio'' = Some (FloatV r) \<and> 0.05 \<le> r \<and> r \<le> 1.0"
    using configured_range[of self] a by blast
qed

text \<open>
  Scene settings 10, 0.001 and 7 reach the modifiers as 5.0, 0.01 and 1.0.
\<close>

theorem properties_clamped_witness:
  "configured (panel_operator wide_scene)
   \<and> fst (execute (panel_operator wide_scene) (scan_scene quad_mesh)) = FINISHED
   \<and> md_settings (ob_modifiers
         (objects (snd (snd (execute (panel_operator wide_scene) (scan_scene quad_mesh)))) ! 1) ! 1)
         ''thickness'' = Some (FloatV 5.0)
   \<and> md_settings (ob_modifiers
         (objects (snd (snd (execute (panel_operator wide_scene) (scan_scene quad_mesh)))) ! 1) ! 2)
         ''voxel_size'' = Some (FloatV 0.01)
   \<and> md_settings (ob_modifiers
         (objects (snd (snd (execute (panel_operator wide_scene) (scan_scene quad_mesh)))) ! 1) ! 4)
         ''ratio'' = Some (FloatV 1.0)"
proof -
  have c: "configured (panel_operator wide_scene)"
    by (simp add: panel_operator_def configured.intros)
  have f: "fst (execute (panel_operator wide_scene) (scan_scene quad_mesh)) = FINISHED"
    by (rule quad_scene_finished)
  have l: "length (objects (scan_scene quad_mesh)) = 1" by (simp add: scan_scene_def)
  have v: "thickness (panel_operator wide_scene) = 5.0"
    "remesh_voxel_size (panel_operator wide_scene) = 0.01"
    "decimate_ratio (panel_operator wide_scene) = 1.0"
    by (simp_all add: panel_operator_def wide_scene_def set_thickness_def
        set_remesh_voxel_size_def set_decimate_ratio_def float_set_def operator_new_def
        thickness_prop_def remesh_voxel_size_prop_def decimate_ratio_prop_def)
  show ?thesis
    using properties_clamped[of 10 operator_new "panel_operator wide_scene" "scan_scene quad_mesh"]
      c f finished_modifiers[OF f] l v
    by (simp add: modifier_stack_def)
qed

section \<open>Errors of the face constructor\<close>

text \<open>
  Claim C9. Let the checks on mode and object pass and some vertex be flagged selected.
  When every selected face has at least three corners and no vertex twice, and no two
  selected faces lie over the same set of vertices, the run finishes: the face
  constructor raises no error. Otherwise the face constructor raises, the exception
  leaves the operator, and the host state is the state before the run with the new, empty
  mesh data-block of line 71 added.
\<close>

theorem face_constructor_error:
  assumes "editing c src" "list_ex v_select (bm_verts (edit_bmesh c src))"
  shows "(selected_faces_ok (selected_faces (edit_bmesh c src)) \<longrightarrow>
            fst (execute self c) = FINISHED)
       \<and> (\<not> selected_faces_ok (selected_faces (edit_bmesh c src)) \<longrightarrow>
            (\<exists>e. execute self c =
               (EXCEPTION e, [],
                c\<lparr>meshes := meshes c @ [\<lparr>me_name = ''Grill_Base_Mesh'', me_bm = bmesh_new\<rparr>]\<rparr>)))"
proof (intro conjI impI)
  assume "selected_faces_ok (selected_faces (edit_bmesh c src))"
  then obtain out where "build_new_bm (edit_bmesh c src) = Inr out"
    using build_new_bm_char[of "edit_bmesh c src"] by auto
  then show "fst (execute self c) = FINISHED"
    using execute_run[OF assms, of self] by simp
next
  assume "\<not> selected_faces_ok (selected_faces (edit_bmesh c src))"
  then obtain e where "build_new_bm (edit_bmesh c src) = Inl e"
    using build_new_bm_char[of "edit_bmesh c src"] by auto
  then show "\<exists>e. execute self c =
               (EXCEPTION e, [],
                c\<lparr>meshes := meshes c @ [\<lparr>me_name = ''Grill_Base_Mesh'', me_bm = bmesh_new\<rparr>]\<rparr>)"
    using execute_run[OF assms, of self] by (simp add: with_new_mesh_def)
qed

text \<open>
The doubled triangle: the run ends in an exception and the new mesh stays behind.
\<close>

theorem face_constructor_error_witness:
  "editing (scan_scene doubled_triangle) 0
   \<and> list_ex v_select (bm_verts (edit_bmesh (scan_scene doubled_triangle) 0))
   \<and> \<not> selected_faces_ok (selected_faces (edit_bmesh (scan_scene doubled_triangle) 0))
   \<and> (\<exists>e. execute operator_new (scan_scene doubled_triangle) =
        (EXCEPTION e, [],
         (scan_scene doubled_triangle)\<lparr>meshes :=
            [\<lparr>me_name = ''Scan'', me_bm = doubled_triangle\<rparr>,
             \<lparr>me_name = ''Grill_Base_Mesh'', me_bm = bmesh_new\<rparr>]\<rparr>))"
proof -
  have v: "list_ex v_select (bm_verts (edit_bmesh (scan_scene doubled_triangle) 0))"
    by (simp add: scan_scene_edit_bmesh doubled_triangle_def square_verts_def)
  have n: "\<not> selected_faces_ok (selected_faces (edit_bmesh (scan_scene doubled_triangle) 0))"
    by (auto simp: scan_scene_edit_bmesh doubled_triangle_def selected_faces_def
        selected_faces_ok_def)
  have m: "meshes (scan_scene doubled_triangle) = [\<lparr>me_name = ''Scan'', me_bm = doubled_triangle\<rparr>]"
    by (simp add: scan_scene_def)
  show ?thesis
    using face_constructor_error[OF scan_scene_editing v, of operator_new]
      scan_scene_editing[of doubled_triangle] v n m
    by simp
qed

section \<open>No orphan vertices\<close>

text \<open>
  Claim C10. When the extraction returns a mesh with at least one face, every vertex of
  that mesh is a corner of one of its faces, and the mesh is the result of the face loop
  alone: the vertex fallback has not run.
\<close>

theorem no_orphan_vertices:
  assumes "extract_selection bm = Inr out" "bm_faces out \<noteq> []"
  shows "(\<forall>v<length (bm_verts out). \<exists>f\<in>set (bm_faces out). v \<in> set (f_verts f))
       \<and> (\<exists>vert_map. copy_faces bm (bm_faces bm) (bmesh_new, Map.empty) = Inr (out, vert_map))"
proof -
  have b: "build_new_bm bm = Inr out" using assms(1) by (simp add: extract_selection_Inr_iff)
  have ne: "selected_faces bm \<noteq> []"
  proof
    assume s: "selected_faces bm = []"
    then have "copy_faces bm (bm_faces bm) (bmesh_new, Map.empty) = Inr (bmesh_new, Map.empty)"
      by (simp add: copy_faces_no_selection selected_faces_def)
    then have "out = copy_selected_verts (bm_verts bm) bmesh_new"
      using b by (simp add: build_new_bm_def bmesh_new_def)
    then have "bm_faces out = []" by (simp add: copy_selected_verts_result bmesh_new_def)
    then show False using assms(2) by simp
  qed
  from build_new_bm_faces[OF b ne] obtain vm where
    r: "copy_faces bm (bm_faces bm) (bmesh_new, Map.empty) = Inr (out, vm)"
    and v: "vm_ok out vm" and d: "dom vm = referenced_verts (selected_faces bm)"
    and f: "bm_faces out = map (image_face vm) (selected_faces bm)" by auto
  have "\<exists>g\<in>set (bm_faces out). n \<in> set (f_verts g)" if n: "n < length (bm_verts out)" for n
  proof -
    have "Some n \<in> vm ` dom vm" using v n by (simp add: vm_ok_def)
    then obtain x where x: "x \<in> dom vm" and vx: "vm x = Some n" by force
    from x d obtain h where h: "h \<in> set (selected_faces bm)" and xh: "x \<in> set (f_verts h)"
      by (auto simp: referenced_verts_def)
    have "image_face vm h \<in> set (bm_faces out)" using h f by simp
    moreover have "n \<in> set (f_verts (image_face vm h))"
      using xh vx by (force simp: image_face_def)
    ultimately show ?thesis by blast
  qed
  then show ?thesis using r by blast
qed

text \<open>
The selected quad.
\<close>

theorem no_orphan_vertices_witness:
  "extract_selection quad_mesh =
     Inr \<lparr>bm_verts = copied_square_verts, bm_faces = [\<lparr>f_verts = [0, 1, 2, 3], f_select = False\<rparr>]\<rparr>
   \<and> bm_faces \<lparr>bm_verts = copied_square_verts,
        bm_faces = [\<lparr>f_verts = [0, 1, 2, 3], f_select = False\<rparr>]\<rparr> \<noteq> []
   \<and> (\<exists>vert_map. copy_faces quad_mesh (bm_faces quad_mesh) (bmesh_new, Map.empty) =
        Inr (\<lparr>bm_verts = copied_square_verts,
              bm_faces = [\<lparr>f_verts = [0, 1, 2, 3], f_select = False\<rparr>]\<rparr>, vert_map))"
proof -
  let ?out = "\<lparr>bm_verts = copied_square_verts,
     bm_faces = [\<lparr>f_verts = [0, 1, 2, 3], f_select = False\<rparr>]\<rparr>"
  have e: "extract_selection quad_mesh = Inr ?out"
    by (simp add: extract_selection_def quad_mesh_selected quad_mesh_build)
  have n: "bm_faces ?out \<noteq> []" by simp
  show ?thesis using no_orphan_vertices[OF e n] e by simp
qed

end
